theory Spec2Isabelle
  imports Main "HOL-Library.List_Lexorder" "HOL-Library.AList"
begin

section \<open>Python strings\<close>

text \<open>
  A Python \<open>str\<close> is a sequence of Unicode code points and \<open>len\<close> counts code points, so a
  string is a list of natural numbers here; \<open>py\<close> embeds an ASCII literal.
\<close>

type_synonym pystr = "nat list"

definition py :: "string \<Rightarrow> pystr" where
  "py s = map of_char s"

text \<open>
  \<open>str.isspace\<close> on one code point. The same set is what \<open>\s\<close> matches in a \<open>str\<close> pattern
  and what \<open>str.strip()\<close> removes: TAB..CR, FS..US, SPACE, NEL, NBSP, U+1680, U+2000..U+200A,
  U+2028, U+2029, U+202F, U+205F and U+3000.
\<close>

definition is_space :: "nat \<Rightarrow> bool" where
  "is_space c \<longleftrightarrow>
     (9 \<le> c \<and> c \<le> 13) \<or> (28 \<le> c \<and> c \<le> 32) \<or> c = 133 \<or> c = 160 \<or> c = 5760 \<or>
     (8192 \<le> c \<and> c \<le> 8202) \<or> c = 8232 \<or> c = 8233 \<or> c = 8239 \<or> c = 8287 \<or> c = 12288"

text \<open>
  The character class of the first substitution of \<open>safe_filename\<close>: backslash, slash, star,
  question mark, colon, double quote, less-than, greater-than and vertical bar.
\<close>

definition forbidden :: "nat list" where
  "forbidden = [92, 47, 42, 63, 58, 34, 60, 62, 124]"

text \<open>\<open>re.sub(r"[\\/*?:\"<>|]", "", name)\<close>: every character of the class is deleted.\<close>

definition sub_forbidden :: "pystr \<Rightarrow> pystr" where
  "sub_forbidden name = filter (\<lambda>c. c \<notin> set forbidden) name"

text \<open>\<open>re.sub(r"\s+", " ", name)\<close>: every maximal run of whitespace becomes one SPACE.\<close>

function sub_spaces :: "pystr \<Rightarrow> pystr" where
  "sub_spaces [] = []"
| "sub_spaces (c # cs) =
     (if is_space c then 32 # sub_spaces (dropWhile is_space cs) else c # sub_spaces cs)"
  by pat_completeness auto
termination
  by (relation "measure length") (auto simp: length_dropWhile_le less_Suc_eq_le)

text \<open>\<open>str.strip()\<close> without argument: leading and trailing whitespace is removed.\<close>

definition strip :: "pystr \<Rightarrow> pystr" where
  "strip s = rev (dropWhile is_space (rev (dropWhile is_space s)))"

text \<open>The slice \<open>s[:k]\<close>: a negative \<open>k\<close> counts from the end, and the bound is clamped.\<close>

definition slice_to :: "pystr \<Rightarrow> int \<Rightarrow> pystr" where
  "slice_to s k = (if k < 0 then take (nat (int (length s) + k)) s else take (nat k) s)"

text \<open>\<open>str(i)\<close>, also \<open>f"{i}"\<close>, for a non-negative integer: its decimal digits.\<close>

function str_nat :: "nat \<Rightarrow> pystr" where
  "str_nat n = (if n < 10 then [48 + n] else str_nat (n div 10) @ [48 + n mod 10])"
  by pat_completeness auto
termination
  by (relation "measure id") auto

declare str_nat.simps [simp del]

text \<open>
  \<open>str.lower()\<close> on the ASCII letters; every other character is left as it is. The program
  applies it to the report of the inspection tool and then looks for \<open>mp3\<close>; the only
  characters that \<open>str.lower()\<close> turns into \<open>m\<close>, \<open>p\<close> or \<open>3\<close> are \<open>M\<close>, \<open>P\<close> and these three
  themselves, so the test comes out the same.
\<close>

definition lower :: "pystr \<Rightarrow> pystr" where
  "lower s = map (\<lambda>c. if 65 \<le> c \<and> c \<le> 90 then c + 32 else c) s"

text \<open>\<open>pat in s\<close>: \<open>pat\<close> occurs in \<open>s\<close> as a contiguous substring.\<close>

fun py_in :: "pystr \<Rightarrow> pystr \<Rightarrow> bool" where
  "py_in pat [] = (pat = [])"
| "py_in pat (c # cs) = (take (length pat) (c # cs) = pat \<or> py_in pat cs)"

text \<open>\<open>str.rfind(c)\<close> for a single character: the highest index where it occurs, or \<open>-1\<close>.\<close>

fun rfind :: "nat \<Rightarrow> pystr \<Rightarrow> int" where
  "rfind c [] = - 1"
| "rfind c (x # xs) =
     (let r = rfind c xs in if 0 \<le> r then r + 1 else if x = c then 0 else - 1)"

section \<open>The filename sanitizer\<close>

definition safe_filename :: "pystr \<Rightarrow> int \<Rightarrow> pystr" where
  "safe_filename name max_length =
     (let name1 = sub_forbidden name;
          name2 = strip (sub_spaces name1)
      in if int (length name2) > max_length then slice_to name2 max_length else name2)"

text \<open>The name after the two substitutions and \<open>strip\<close>, before any truncation.\<close>

definition cleaned :: "pystr \<Rightarrow> pystr" where
  "cleaned s = strip (sub_spaces (sub_forbidden s))"

text \<open>The default value of the parameter \<open>max_length\<close>.\<close>

definition default_max_length :: int where
  "default_max_length = 150"

text \<open>No two neighbouring characters of a string are both whitespace.\<close>

definition no_space_run :: "pystr \<Rightarrow> bool" where
  "no_space_run s = successively (\<lambda>a b. \<not> (is_space a \<and> is_space b)) s"

section \<open>Files and directories\<close>

text \<open>
  A directory is the list of its entries, name and file. A file is its bytes and its
  permission bits.
\<close>

record entry =
  data :: "nat list"
  mode :: nat

type_synonym directory = "(pystr \<times> entry) list"

text \<open>\<open>Path.exists()\<close> for a name inside a directory.\<close>

definition path_exists :: "directory \<Rightarrow> pystr \<Rightarrow> bool" where
  "path_exists d name = (map_of d name \<noteq> None)"

text \<open>
  \<open>PurePath.stem\<close> of a file name: the name up to its last dot, unless that dot is the first or
  the last character.
\<close>

definition stem :: "pystr \<Rightarrow> pystr" where
  "stem name =
     (let i = rfind 46 name
      in if 0 < i \<and> i < int (length name) - 1 then take (nat i) name else name)"

text \<open>The names that the pattern \<open>*.mp3\<close> matches, and \<open>tmp.glob("*.mp3")\<close>.\<close>

definition matches_mp3 :: "pystr \<Rightarrow> bool" where
  "matches_mp3 name = (4 \<le> length name \<and> drop (length name - 4) name = py ''.mp3'')"

definition glob_mp3 :: "directory \<Rightarrow> pystr list" where
  "glob_mp3 d = filter matches_mp3 (map fst d)"

text \<open>A directory that does not exist lists nothing.\<close>

definition listing :: "directory option \<Rightarrow> directory" where
  "listing d = (case d of None \<Rightarrow> [] | Some xs \<Rightarrow> xs)"

section \<open>External collaborators\<close>

text \<open>An instance of a subclass of \<open>Exception\<close>, with its \<open>str()\<close>.\<close>

datatype exn = Exn (str_exn: pystr)

text \<open>\<open>subprocess.CompletedProcess\<close>, as far as the program reads it.\<close>

datatype completed = Completed (stdout: pystr) (returncode: int)

text \<open>
  The options handed to \<open>YoutubeDL\<close>. The web front end sets no \<open>progress_hooks\<close>, which is
  the empty list here.
\<close>

record postprocessor =
  key :: pystr
  preferredcodec :: pystr
  preferredquality :: pystr

record ydl_opts =
  format :: pystr
  outtmpl :: pystr
  opt_noplaylist :: bool
  postprocessors :: "postprocessor list"
  progress_hooks :: "pystr list"
  quiet :: bool
  no_warnings :: bool

text \<open>
  What the pipeline asks of the outside, in the order asked: \<open>subprocess.run\<close> with its
  argument vector and its timeout in seconds, and \<open>extract_info(url, download=True)\<close>.
\<close>

datatype call =
    Subprocess_run "pystr list" nat
  | Extract_info pystr ydl_opts

text \<open>What the web front end shows.\<close>

datatype ui_msg =
    St_warning pystr
  | St_error pystr
  | St_info pystr
  | St_success pystr

text \<open>
  The behaviour of everything outside the program during one run:
  the path of the fresh temporary directory; whether creating the output directory raises;
  the files the download library writes into the directory of its output template and the
  exception it raises, if any; whether \<open>shutil.which\<close> finds the two tools; what
  \<open>subprocess.run\<close> does for an argument vector, a timeout and the file probed (it returns or
  raises, a timeout included); whether \<open>unlink\<close>, \<open>os.replace\<close> and \<open>os.chmod\<close> raise; and,
  for the removal of the temporary directory at the end, whether deleting an entry that is
  still in it raises and whether removing the emptied directory raises.
\<close>

record env =
  mkdtemp :: pystr
  mkdir_raises :: "exn option"
  youtube_dl :: "pystr \<Rightarrow> ydl_opts \<Rightarrow> (pystr \<times> entry) list \<times> exn option"
  which_ffprobe :: bool
  which_ffmpeg :: bool
  subprocess_run :: "pystr list \<Rightarrow> nat \<Rightarrow> entry option \<Rightarrow> exn + completed"
  unlink_raises :: "pystr \<Rightarrow> exn option"
  replace_raises :: "pystr \<Rightarrow> pystr \<Rightarrow> exn option"
  chmod_raises :: "pystr \<Rightarrow> exn option"
  rmtree_raises :: "pystr \<Rightarrow> exn option"
  rmdir_raises :: "exn option"

section \<open>The validator\<close>

definition ffprobe_argv :: "pystr \<Rightarrow> pystr list" where
  "ffprobe_argv path =
     [py ''ffprobe'', py ''-v'', py ''error'', py ''-show_entries'', py ''format=format_name'',
      py ''-of'', py ''default=noprint_wrappers=1:nokey=1'', path]"

definition ffmpeg_argv :: "pystr \<Rightarrow> pystr list" where
  "ffmpeg_argv path =
     [py ''ffmpeg'', py ''-v'', py ''error'', py ''-i'', path, py ''-f'', py ''null'', py ''-'']"

text \<open>The result of \<open>ffprobe_recognizes_mp3\<close> and the calls it made.\<close>

definition ffprobe_recognizes_mp3 :: "env \<Rightarrow> pystr \<Rightarrow> entry option \<Rightarrow> bool \<times> call list" where
  "ffprobe_recognizes_mp3 e path f =
     (if \<not> which_ffprobe e then (False, [])
      else case subprocess_run e (ffprobe_argv path) 15 f of
             Inl ex \<Rightarrow> (False, [Subprocess_run (ffprobe_argv path) 15])
           | Inr completed \<Rightarrow>
               (py_in (py ''mp3'') (lower (stdout completed)),
                [Subprocess_run (ffprobe_argv path) 15]))"

text \<open>
  Lines 139 to 151 of \<open>download_and_validate\<close>: the value of \<open>ok\<close> for one candidate, and the
  calls made to find it.
\<close>

definition candidate_ok :: "env \<Rightarrow> pystr \<Rightarrow> entry option \<Rightarrow> bool \<times> call list" where
  "candidate_ok e path f =
     (let (ok, cs) = ffprobe_recognizes_mp3 e path f
      in if \<not> ok
         then (case subprocess_run e (ffmpeg_argv path) 20 f of
                 Inl ex \<Rightarrow> (False, cs @ [Subprocess_run (ffmpeg_argv path) 20])
               | Inr res \<Rightarrow> (returncode res = 0, cs @ [Subprocess_run (ffmpeg_argv path) 20]))
         else (ok, cs))"

section \<open>Placement\<close>

text \<open>Decimal rendering loses nothing: reading the digits back gives the number.\<close>

lemma str_nat_value: "foldl (\<lambda>a c. 10 * a + (c - 48)) 0 (str_nat n) = n"
proof (induction n rule: str_nat.induct)
  case (1 n)
  show ?case
  proof (cases "n < 10")
    case True
    then show ?thesis by (simp add: str_nat.simps [of n])
  next
    case False
    with 1 show ?thesis by (simp add: str_nat.simps [of n])
  qed
qed

lemma str_nat_inj: "str_nat n = str_nat m \<Longrightarrow> n = m"
  by (metis str_nat_value)

text \<open>The name \<open>f"{name} ({i}).mp3"\<close> of line 171.\<close>

definition numbered :: "pystr \<Rightarrow> nat \<Rightarrow> pystr" where
  "numbered name i = name @ py '' ('' @ str_nat i @ py '').mp3''"

lemma numbered_inj: "numbered name i = numbered name j \<Longrightarrow> i = j"
  by (auto simp: numbered_def dest: str_nat_inj)

text \<open>
  The loop of lines 170 to 172, \<open>while dest.exists(): dest = ...; i += 1\<close>, on the listing of
  the output directory. It ends because the directory has finitely many entries and the names
  tried are pairwise different.
\<close>

function dest_loop :: "directory \<Rightarrow> pystr \<Rightarrow> pystr \<Rightarrow> nat \<Rightarrow> pystr" where
  "dest_loop d name dest i =
     (if path_exists d dest then dest_loop d name (numbered name i) (i + 1) else dest)"
  by pat_completeness auto
termination
proof (relation "measure (\<lambda>(d, name, dest, i).
    2 * card {k. i \<le> k \<and> path_exists d (numbered name k)}
    + (if path_exists d dest then 1 else 0))", goal_cases)
  case 1
  show ?case by simp
next
  case (2 d name dest i)
  let ?A = "\<lambda>j. {k. j \<le> k \<and> path_exists d (numbered name k)}"
  have inj: "inj (numbered name)" by (auto simp: inj_on_def dest: numbered_inj)
  have "?A i \<subseteq> numbered name -` (fst ` set d)"
    by (auto simp: path_exists_def map_of_eq_None_iff)
  moreover have "finite (numbered name -` (fst ` set d))"
    using inj by (intro finite_vimageI) auto
  ultimately have fin: "finite (?A i)" by (rule finite_subset)
  show ?case
  proof (cases "path_exists d (numbered name i)")
    case True
    have "i \<in> ?A i" using True by simp
    moreover have "i \<notin> ?A (i + 1)" by simp
    moreover have "?A (i + 1) \<subseteq> ?A i" by auto
    ultimately have "?A (i + 1) \<subset> ?A i" by blast
    then have "card (?A (i + 1)) < card (?A i)" using fin by (intro psubset_card_mono)
    with 2 True show ?thesis by simp
  next
    case False
    have "?A (i + 1) = ?A i" using False by (auto simp: le_Suc_eq Suc_le_eq) (metis less_le)
    with 2 False show ?thesis by simp
  qed
qed

declare dest_loop.simps [simp del]

text \<open>Lines 163 to 172: the destination name chosen for a validated candidate.\<close>

definition choose_dest :: "directory \<Rightarrow> pystr \<Rightarrow> pystr" where
  "choose_dest d cand =
     (let safe_name = safe_filename (stem cand) default_max_length @ py ''.mp3'';
          dest = safe_name
      in if path_exists d dest
         then dest_loop d (safe_filename (stem cand) default_max_length) dest 1
         else dest)"

section \<open>The pipeline\<close>

text \<open>
  The state a run works on: the temporary directory (\<open>None\<close> when it does not exist), the
  output directory, what was shown to the user and the calls made so far.
\<close>

record world =
  scratch :: "directory option"
  final :: "directory option"
  msgs :: "ui_msg list"
  calls :: "call list"

text \<open>\<open>os.replace(cand, dest)\<close>, from the temporary directory into the output directory.\<close>

definition os_replace :: "env \<Rightarrow> world \<Rightarrow> pystr \<Rightarrow> pystr \<Rightarrow> exn + world" where
  "os_replace e w src dst =
     (case map_of (listing (scratch w)) src of
        None \<Rightarrow> Inl (Exn (py ''FileNotFoundError''))
      | Some f \<Rightarrow>
          (case replace_raises e src dst of
             Some ex \<Rightarrow> Inl ex
           | None \<Rightarrow> Inr (w\<lparr>scratch := map_option (AList.delete src) (scratch w),
                               final := Some (AList.update dst f (listing (final w)))\<rparr>)))"

text \<open>Setting the permission bits of one entry of a directory.\<close>

definition chmod_entry :: "pystr \<Rightarrow> nat \<Rightarrow> directory \<Rightarrow> directory" where
  "chmod_entry dst m d = map (\<lambda>(n, f). (n, if n = dst then f\<lparr>mode := m\<rparr> else f)) d"

text \<open>\<open>os.chmod(dest, 0o600)\<close> inside \<open>try ... except Exception: pass\<close>.\<close>

definition try_chmod :: "env \<Rightarrow> world \<Rightarrow> pystr \<Rightarrow> world" where
  "try_chmod e w dst =
     (case chmod_raises e dst of
        Some ex \<Rightarrow> w
      | None \<Rightarrow> w\<lparr>final := map_option (chmod_entry dst 384) (final w)\<rparr>)"

text \<open>\<open>cand.unlink()\<close> inside \<open>try ... except Exception: pass\<close>.\<close>

definition try_unlink :: "env \<Rightarrow> world \<Rightarrow> pystr \<Rightarrow> world" where
  "try_unlink e w cand =
     (case unlink_raises e cand of
        Some ex \<Rightarrow> w
      | None \<Rightarrow> w\<lparr>scratch := map_option (AList.delete cand) (scratch w)\<rparr>)"

text \<open>
  One iteration of the loop over the candidates (lines 137 to 182), on the list \<open>accepted\<close>
  and the state. The candidate is a name in the temporary directory.
\<close>

definition process_candidate ::
  "env \<Rightarrow> pystr list \<times> world \<Rightarrow> pystr \<Rightarrow> pystr list \<times> world" where
  "process_candidate e st cand =
     (let (accepted, w) = st;
          (ok, cs) = candidate_ok e (mkdtemp e @ py ''/'' @ cand)
                       (map_of (listing (scratch w)) cand);
          w1 = w\<lparr>calls := calls w @ cs\<rparr>
      in if \<not> ok
         then (accepted,
               try_unlink e
                 (w1\<lparr>msgs := msgs w1 @
                    [St_warning (py ''Discarding unrecognized or invalid file: '' @ cand)]\<rparr>) cand)
         else (let dest = choose_dest (listing (final w1)) cand
               in case os_replace e w1 cand dest of
                    Inl ex \<Rightarrow>
                      (accepted,
                       w1\<lparr>msgs := msgs w1 @
                         [St_error (py ''Failed to move validated file into place: '' @
                            str_exn ex)]\<rparr>)
                  | Inr w2 \<Rightarrow> (accepted @ [dest], try_chmod e w2 dest)))"

definition process_candidates ::
  "env \<Rightarrow> pystr list \<times> world \<Rightarrow> pystr list \<Rightarrow> pystr list \<times> world" where
  "process_candidates e st cands = foldl (process_candidate e) st cands"

definition make_ydl_opts :: "pystr \<Rightarrow> pystr \<Rightarrow> ydl_opts" where
  "make_ydl_opts tmp quality =
     \<lparr>format = py ''bestaudio/best'',
      outtmpl = tmp @ py ''/%(title)s.%(ext)s'',
      opt_noplaylist = False,
      postprocessors =
        [\<lparr>key = py ''FFmpegExtractAudio'', preferredcodec = py ''mp3'',
          preferredquality = quality\<rparr>],
      progress_hooks = [],
      quiet = False,
      no_warnings = False\<rparr>"

text \<open>The download library writes its files into the temporary directory.\<close>

fun write_files :: "(pystr \<times> entry) list \<Rightarrow> directory \<Rightarrow> directory" where
  "write_files [] d = d"
| "write_files ((n, f) # fs) d = write_files fs (AList.update n f d)"

text \<open>
  The body of the \<open>with tempfile.TemporaryDirectory()\<close> block (lines 111 to 184). It returns
  the list \<open>accepted\<close>, or the exception that \<open>extract_info\<close> raised.
\<close>

definition with_body :: "env \<Rightarrow> pystr \<Rightarrow> pystr \<Rightarrow> world \<Rightarrow> (exn + pystr list) \<times> world" where
  "with_body e url quality w =
     (let opts = make_ydl_opts (mkdtemp e) quality;
          (written, raised) = youtube_dl e url opts;
          w1 = w\<lparr>scratch := map_option (write_files written) (scratch w),
                 calls := calls w @ [Extract_info url opts]\<rparr>
      in case raised of
           Some ex \<Rightarrow> (Inl ex, w1)
         | None \<Rightarrow>
             (let candidates = sort (glob_mp3 (listing (scratch w1)));
                  (accepted, w2) = process_candidates e ([], w1) candidates
              in (Inr accepted, w2)))"

text \<open>
  \<open>shutil.rmtree\<close> on the entries still in the temporary directory, as the cleanup of
  \<open>tempfile.TemporaryDirectory\<close> runs it (errors are not ignored): the entries are deleted one
  after the other, and the first deletion that raises stops the removal and leaves that entry
  and the ones after it. The result is what is left and the exception, if any.
\<close>

fun rmtree :: "(pystr \<Rightarrow> exn option) \<Rightarrow> directory \<Rightarrow> directory \<times> exn option" where
  "rmtree raises [] = ([], None)"
| "rmtree raises ((n, f) # d) =
     (case raises n of
        Some ex \<Rightarrow> ((n, f) # d, Some ex)
      | None \<Rightarrow> rmtree raises d)"

text \<open>
  The exit of the \<open>with tempfile.TemporaryDirectory()\<close> block: the directory is emptied and
  then removed. An exception raised on the way leaves the directory, with what could not be
  deleted, and is raised out of the block.
\<close>

definition cleanup :: "env \<Rightarrow> world \<Rightarrow> exn option \<times> world" where
  "cleanup e w =
     (case scratch w of
        None \<Rightarrow> (None, w)
      | Some d \<Rightarrow>
          (case rmtree (rmtree_raises e) d of
             (rest, Some ex) \<Rightarrow> (Some ex, w\<lparr>scratch := Some rest\<rparr>)
           | (rest, None) \<Rightarrow>
               (case rmdir_raises e of
                  Some ex \<Rightarrow> (Some ex, w\<lparr>scratch := Some rest\<rparr>)
                | None \<Rightarrow> (None, w\<lparr>scratch := None\<rparr>))))"

text \<open>
  \<open>download_and_validate\<close>, given the output directory as it is before the call (\<open>None\<close> when
  it does not exist). \<open>mkdir(parents=True, exist_ok=True)\<close> leaves an existing directory alone.
  The context manager creates the temporary directory on entry; on exit, whether the body
  returned or raised, it runs the cleanup, and an exception of the cleanup takes the place of
  the body's result.
\<close>

definition download_and_validate ::
  "env \<Rightarrow> pystr \<Rightarrow> directory option \<Rightarrow> pystr \<Rightarrow> (exn + pystr list) \<times> world" where
  "download_and_validate e url final_out_dir quality =
     (case (if final_out_dir = None then mkdir_raises e else None) of
        Some ex \<Rightarrow> (Inl ex, \<lparr>scratch = None, final = final_out_dir, msgs = [], calls = []\<rparr>)
      | None \<Rightarrow>
          (let w0 = \<lparr>scratch = None, final = Some (listing final_out_dir), msgs = [], calls = []\<rparr>;
               (res, w) = with_body e url quality (w0\<lparr>scratch := Some []\<rparr>);
               (raised, w') = cleanup e w
           in case raised of
                Some ex \<Rightarrow> (Inl ex, w')
              | None \<Rightarrow> (res, w')))"

text \<open>
  An outside in which nothing goes wrong: the download library writes the given files and
  returns, both tools are installed, every tool run exits with status 0 and the inspection
  reports \<open>mp3\<close>, and no file operation raises.
\<close>

definition example_env :: "(pystr \<times> entry) list \<Rightarrow> env" where
  "example_env files =
     \<lparr>mkdtemp = py ''/tmp/tmpdir'', mkdir_raises = None,
      youtube_dl = (\<lambda>url opts. (files, None)),
      which_ffprobe = True, which_ffmpeg = True,
      subprocess_run = (\<lambda>argv t f. Inr (Completed (py ''mp3'') 0)),
      unlink_raises = (\<lambda>cand. None), replace_raises = (\<lambda>src dst. None),
      chmod_raises = (\<lambda>dst. None), rmtree_raises = (\<lambda>name. None),
      rmdir_raises = None\<rparr>"

text \<open>
  Three variations. In the first the inspection tool is installed and reports \<open>wav\<close>; in the
  second every run of the inspection tool raises; in the third every tool run raises. The
  decoder, where it is not said to raise, exits with status 0.
\<close>

definition wav_env :: env where
  "wav_env = (example_env [(py ''Song.mp3'', \<lparr>data = [82, 73, 70, 70], mode = 420\<rparr>)])
     \<lparr>subprocess_run := (\<lambda>argv t f.
        if hd argv = py ''ffprobe'' then Inr (Completed (py ''wav'' @ [10]) 0)
        else Inr (Completed [] 0))\<rparr>"

definition timeout_env :: env where
  "timeout_env = (example_env [(py ''Song.mp3'', \<lparr>data = [73, 68, 51], mode = 420\<rparr>)])
     \<lparr>subprocess_run := (\<lambda>argv t f.
        if hd argv = py ''ffprobe'' then Inl (Exn (py ''TimeoutExpired''))
        else Inr (Completed [] 0))\<rparr>"

definition raising_env :: env where
  "raising_env = (example_env [(py ''Song.mp3'', \<lparr>data = [73, 68, 51], mode = 420\<rparr>)])
     \<lparr>subprocess_run := (\<lambda>argv t f. Inl (Exn (py ''TimeoutExpired'')))\<rparr>"

text \<open>
  A fourth: the download library leaves a partial file behind and raises.
\<close>

definition failing_env :: env where
  "failing_env = (example_env [])
     \<lparr>youtube_dl := (\<lambda>url opts.
        ([(py ''Song.webm.part'', \<lparr>data = [26, 69], mode = 420\<rparr>)],
         Some (Exn (py ''DownloadError''))))\<rparr>"

text \<open>
  A fifth: every tool run raises, and the one file in the temporary directory is busy, so that
  neither \<open>unlink\<close> in the loop nor the removal at the end can delete it.
\<close>

definition busy_env :: env where
  "busy_env = raising_env
     \<lparr>unlink_raises := (\<lambda>cand. Some (Exn (py ''[Errno 16] Device or resource busy''))),
      rmtree_raises := (\<lambda>name. Some (Exn (py ''[Errno 16] Device or resource busy'')))\<rparr>"

section \<open>The web front end\<close>

text \<open>The options passed to \<open>extract_info\<close> calls, in order.\<close>

fun extract_opts :: "call list \<Rightarrow> ydl_opts list" where
  "extract_opts [] = []"
| "extract_opts (Extract_info url opts # cs) = opts # extract_opts cs"
| "extract_opts (Subprocess_run argv t # cs) = extract_opts cs"

text \<open>The values the bitrate selector offers.\<close>

definition bitrate_options :: "nat list" where
  "bitrate_options = [128, 192, 256, 320]"

text \<open>
  \<open>str(Path(s))\<close> on POSIX: empty components and single dots are dropped, a leading slash
  is kept (two are kept when there are exactly two), and the empty path is a dot.
\<close>

fun split_on :: "nat \<Rightarrow> pystr \<Rightarrow> pystr list" where
  "split_on c [] = [[]]"
| "split_on c (x # xs) =
     (if x = c then [] # split_on c xs
      else (case split_on c xs of
              [] \<Rightarrow> [[x]]
            | p # ps \<Rightarrow> (x # p) # ps))"

fun join_with :: "pystr \<Rightarrow> pystr list \<Rightarrow> pystr" where
  "join_with sep [] = []"
| "join_with sep [p] = p"
| "join_with sep (p # q # ps) = p @ sep @ join_with sep (q # ps)"

definition str_path :: "pystr \<Rightarrow> pystr" where
  "str_path s =
     (let root = (if take 2 s = py ''//'' \<and> take 3 s \<noteq> py ''///'' then py ''//''
                  else if take 1 s = py ''/'' then py ''/''
                  else []);
          parts = filter (\<lambda>p. p \<noteq> [] \<and> p \<noteq> py ''.'') (split_on 47 s);
          r = root @ join_with (py ''/'') parts
      in if r = [] then py ''.'' else r)"

text \<open>
  What the two selectors return: one of the three places to save to, and one of the four
  bitrates.
\<close>

datatype save_option = System_Downloads | Desktop | Custom_path

datatype bitrate = B128 | B192 | B256 | B320

fun kbps :: "bitrate \<Rightarrow> nat" where
  "kbps B128 = 128"
| "kbps B192 = 192"
| "kbps B256 = 256"
| "kbps B320 = 320"

record ui_input =
  url_field :: pystr
  save_choice :: save_option
  custom_folder :: pystr
  bitrate_choice :: bitrate
  download_clicked :: bool

text \<open>
  \<open>main\<close> of the web front end, from the widgets' values to the result message (the rows
  listing the files follow it and change nothing). \<open>home\<close> is \<open>Path.home()\<close>, \<open>dirs\<close> gives
  for a path the directory there, if one exists. The result is what is shown and, when the
  pipeline ran, the state it left. \<open>Path.home()\<close> and the path of the temporary directory are
  absolute and normalized, so joining a name to them puts one slash in between.
\<close>

definition streamlit_main ::
  "env \<Rightarrow> pystr \<Rightarrow> (pystr \<Rightarrow> directory option) \<Rightarrow> ui_input \<Rightarrow> ui_msg list \<times> world option" where
  "streamlit_main e home dirs inp =
     (let url = url_field inp;
          out_dir = (case save_choice inp of
                       System_Downloads \<Rightarrow> home @ py ''/Downloads''
                     | Desktop \<Rightarrow> home @ py ''/Desktop''
                     | Custom_path \<Rightarrow> custom_folder inp);
          quality = kbps (bitrate_choice inp)
      in if \<not> download_clicked inp then ([], None)
         else if url = [] then ([St_error (py ''Please provide a YouTube URL.'')], None)
         else if out_dir = []
         then ([St_error (py ''Please select or enter an output folder before downloading.'')], None)
         else (case (if dirs out_dir = None then mkdir_raises e else None) of
                 Some ex \<Rightarrow>
                   ([St_error (py ''Could not create output directory: '' @ str_exn ex)], None)
               | None \<Rightarrow>
                   (let warn = (if \<not> which_ffmpeg e \<or> \<not> which_ffprobe e
                                then [St_warning (py ''ffmpeg/ffprobe not found on PATH. Audio validation may be limited. Install ffmpeg to improve security checks.'')]
                                else []);
                        (res, w) = download_and_validate e url
                                     (Some (listing (dirs out_dir))) (str_nat quality)
                    in case res of
                         Inl ex \<Rightarrow>
                           (warn @ msgs w @ [St_error (py ''Download/validation failed: '' @ str_exn ex)],
                            Some w)
                       | Inr files \<Rightarrow>
                           (if files = []
                            then (warn @ msgs w @ [St_info (py ''No validated MP3 files available after download. Check the server logs or try a different URL.'')], Some w)
                            else (warn @ msgs w @
                                  [St_success (py ''Completed: '' @ str_nat (length files) @
                                     py '' validated file(s) available in '' @ str_path out_dir)],
                                  Some w)))))"

section \<open>The command line front end\<close>

text \<open>
  The \<open>argparse.Namespace\<close> that \<open>parse_args\<close> returns: the positional URL, \<open>--output\<close>,
  \<open>--quality\<close> (any string; default \<open>"192"\<close>) and \<open>--no-playlist\<close> (\<open>store_true\<close>).
\<close>

record namespace =
  args_url :: pystr
  args_output :: pystr
  args_quality :: pystr
  args_noplaylist :: bool

text \<open>What the command line tool does, in order, and how it ends.\<close>

datatype event =
    Print pystr
  | Makedirs pystr
  | Download "pystr list" ydl_opts

datatype outcome = Returned | Sys_exit int | Raised exn

text \<open>
  The outside of the command line tool: whether \<open>os.makedirs\<close> raises, whether ffmpeg is on
  the path, and the exception \<open>ydl.download\<close> raises, if any.
\<close>

record cli_env =
  makedirs_raises :: "pystr \<Rightarrow> exn option"
  check_ffmpeg :: bool
  ydl_download :: "pystr list \<Rightarrow> ydl_opts \<Rightarrow> exn option"

text \<open>
  \<open>os.path.join(a, b)\<close> for two components, on POSIX: an absolute \<open>b\<close> replaces \<open>a\<close>, and
  a slash is put between them unless \<open>a\<close> is empty or ends in one.
\<close>

definition os_path_join :: "pystr \<Rightarrow> pystr \<Rightarrow> pystr" where
  "os_path_join a b =
     (if take 1 b = py ''/'' then b
      else if a = [] \<or> last a = 47 then a @ b
      else a @ py ''/'' @ b)"

definition cli_ydl_opts :: "pystr \<Rightarrow> pystr \<Rightarrow> ydl_opts" where
  "cli_ydl_opts out_dir prefer_quality =
     \<lparr>format = py ''bestaudio/best'',
      outtmpl = os_path_join out_dir (py ''%(title)s.%(ext)s''),
      opt_noplaylist = False,
      postprocessors =
        [\<lparr>key = py ''FFmpegExtractAudio'', preferredcodec = py ''mp3'',
          preferredquality = prefer_quality\<rparr>],
      progress_hooks = [py ''progress_hook''],
      quiet = False,
      no_warnings = True\<rparr>"

definition download_mp3 :: "cli_env \<Rightarrow> pystr \<Rightarrow> pystr \<Rightarrow> pystr \<Rightarrow> event list \<times> outcome" where
  "download_mp3 e url out_dir prefer_quality =
     (case makedirs_raises e out_dir of
        Some ex \<Rightarrow> ([Makedirs out_dir], Raised ex)
      | None \<Rightarrow>
          (let warn = (if \<not> check_ffmpeg e
                       then [Print (py ''Warning: ffmpeg not found on PATH. yt-dlp will fail to convert to MP3.'')]
                       else []);
               opts = cli_ydl_opts out_dir prefer_quality
           in case ydl_download e [url] opts of
                Some exc \<Rightarrow>
                  ([Makedirs out_dir] @ warn @ [Download [url] opts,
                     Print (py ''Download failed: '' @ str_exn exc)], Sys_exit 1)
              | None \<Rightarrow> ([Makedirs out_dir] @ warn @ [Download [url] opts], Returned)))"

text \<open>
  \<open>main\<close> of the command line tool, from the parsed arguments on. The branch on
  \<open>args.noplaylist\<close> holds only \<open>pass\<close>.
\<close>

definition cli_main :: "cli_env \<Rightarrow> namespace \<Rightarrow> event list \<times> outcome" where
  "cli_main e args =
     (let url = args_url args;
          out_dir = args_output args;
          u = (if args_noplaylist args then () else ());
          hello = [Print (py ''Downloading: '' @ url @ [10] @ py ''Output directory: '' @ out_dir)];
          (evs, r) = download_mp3 e url out_dir (args_quality args)
      in case r of
           Returned \<Rightarrow> (hello @ evs @ [Print (py ''Done.'')], Returned)
         | Sys_exit n \<Rightarrow> (hello @ evs, Sys_exit n)
         | Raised ex \<Rightarrow> (hello @ evs, Raised ex))"

text \<open>The options of the \<open>ydl.download\<close> calls among the events, in order.\<close>

fun download_opts :: "event list \<Rightarrow> ydl_opts list" where
  "download_opts [] = []"
| "download_opts (Download urls opts # evs) = opts # download_opts evs"
| "download_opts (Print s # evs) = download_opts evs"
| "download_opts (Makedirs p # evs) = download_opts evs"

text \<open>An outside of the command line tool in which nothing goes wrong.\<close>

definition quiet_cli :: cli_env where
  "quiet_cli = \<lparr>makedirs_raises = (\<lambda>p. None), check_ffmpeg = True,
                 ydl_download = (\<lambda>urls opts. None)\<rparr>"

section \<open>Evaluation\<close>

text \<open>The definitions that a run on concrete input unfolds.\<close>

lemmas string_defs = py_def safe_filename_def sub_forbidden_def forbidden_def strip_def
  is_space_def slice_to_def default_max_length_def stem_def lower_def Let_def

lemmas run_defs = download_and_validate_def with_body_def process_candidates_def
  process_candidate_def candidate_ok_def ffprobe_recognizes_mp3_def choose_dest_def
  os_replace_def try_chmod_def chmod_entry_def try_unlink_def listing_def glob_mp3_def
  matches_mp3_def path_exists_def make_ydl_opts_def numbered_def ffprobe_argv_def
  ffmpeg_argv_def example_env_def cleanup_def dest_loop.simps str_nat.simps

section \<open>Properties of the sanitizer\<close>

lemma is_space_32: "is_space 32" by (simp add: is_space_def)
lemma not_forbidden_32: "32 \<notin> set forbidden" by (simp add: forbidden_def)

lemma set_sub_spaces: "set (sub_spaces s) \<subseteq> insert 32 (set s)"
proof (induction s rule: sub_spaces.induct)
  case 1 show ?case by simp
next
  case (2 c cs)
  show ?case
  proof (cases "is_space c")
    case True
    with 2 have "set (sub_spaces (dropWhile is_space cs)) \<subseteq> insert 32 (set (dropWhile is_space cs))" by simp
    moreover have "set (dropWhile is_space cs) \<subseteq> set cs" by (auto dest: set_dropWhileD)
    ultimately show ?thesis using True by auto
  next
    case False
    with 2 show ?thesis by auto
  qed
qed

lemma spaces_sub_spaces: "c \<in> set (sub_spaces s) \<Longrightarrow> is_space c \<Longrightarrow> c = 32"
proof (induction s rule: sub_spaces.induct)
  case 1 then show ?case by simp
next
  case (2 d cs)
  then show ?case by (cases "is_space d") auto
qed

lemma hd_sub_spaces: "s \<noteq> [] \<Longrightarrow> \<not> is_space (hd s) \<Longrightarrow> sub_spaces s \<noteq> [] \<and> hd (sub_spaces s) = hd s"
  by (cases s) auto

lemma no_space_run_sub_spaces: "no_space_run (sub_spaces s)"
proof (induction s rule: sub_spaces.induct)
  case 1 show ?case by (simp add: no_space_run_def)
next
  case (2 c cs)
  show ?case
  proof (cases "is_space c")
    case True
    let ?t = "dropWhile is_space cs"
    have ih: "no_space_run (sub_spaces ?t)" using 2 True by simp
    have "sub_spaces ?t = [] \<or> \<not> is_space (hd (sub_spaces ?t))"
    proof (cases "?t = []")
      case True
      have "sub_spaces [] = []" by simp
      with True show ?thesis by metis
    next
      case False
      then have "\<not> is_space (hd ?t)" by (rule hd_dropWhile)
      with False show ?thesis using hd_sub_spaces [of ?t] by simp
    qed
    with ih True show ?thesis by (auto simp: no_space_run_def successively_Cons)
  next
    case False
    with 2 show ?thesis by (auto simp: no_space_run_def successively_Cons)
  qed
qed

lemma no_space_run_append:
  "no_space_run (xs @ ys) \<Longrightarrow> no_space_run xs \<and> no_space_run ys"
  by (simp add: no_space_run_def successively_append_iff)

lemma no_space_run_take: "no_space_run s \<Longrightarrow> no_space_run (take n s)"
  using no_space_run_append [of "take n s" "drop n s"] by simp

lemma no_space_run_dropWhile: "no_space_run s \<Longrightarrow> no_space_run (dropWhile P s)"
  using no_space_run_append [of "takeWhile P s" "dropWhile P s"] by simp

lemma no_space_run_rev: "no_space_run (rev s) = no_space_run s"
  unfolding no_space_run_def successively_rev
  by (rule successively_cong) auto

lemma no_space_run_strip: "no_space_run s \<Longrightarrow> no_space_run (strip s)"
  by (simp add: strip_def no_space_run_rev no_space_run_dropWhile)

lemma set_strip: "set (strip s) \<subseteq> set s"
  by (auto simp: strip_def dest!: set_dropWhileD)

lemma slice_to_take: "\<exists>n. slice_to s k = take n s"
  by (auto simp: slice_to_def)

lemma safe_filename_take:
  "\<exists>n. safe_filename s m = take n (strip (sub_spaces (sub_forbidden s)))"
proof (cases "int (length (strip (sub_spaces (sub_forbidden s)))) > m")
  case True
  then show ?thesis using slice_to_take by (simp add: safe_filename_def Let_def)
next
  case False
  have "strip (sub_spaces (sub_forbidden s)) = take (length (strip (sub_spaces (sub_forbidden s)))) (strip (sub_spaces (sub_forbidden s)))" by simp
  then show ?thesis using False unfolding safe_filename_def Let_def by (metis (full_types))
qed

lemma set_cleaned: "set (strip (sub_spaces (sub_forbidden s))) \<inter> set forbidden = {}"
proof -
  have "set (sub_forbidden s) \<inter> set forbidden = {}" by (auto simp: sub_forbidden_def)
  then have "set (sub_spaces (sub_forbidden s)) \<inter> set forbidden = {}"
    using set_sub_spaces [of "sub_forbidden s"] not_forbidden_32 by auto
  then show ?thesis using set_strip [of "sub_spaces (sub_forbidden s)"] by auto
qed

lemma safe_filename_no_forbidden: "c \<in> set (safe_filename s m) \<Longrightarrow> c \<notin> set forbidden"
proof -
  assume a: "c \<in> set (safe_filename s m)"
  obtain n where "safe_filename s m = take n (strip (sub_spaces (sub_forbidden s)))"
    using safe_filename_take by blast
  with a have "c \<in> set (strip (sub_spaces (sub_forbidden s)))" by (auto dest: in_set_takeD)
  then show ?thesis using set_cleaned [of s] by auto
qed

lemma safe_filename_no_space_run: "no_space_run (safe_filename s m)"
proof -
  obtain n where "safe_filename s m = take n (strip (sub_spaces (sub_forbidden s)))"
    using safe_filename_take by blast
  then show ?thesis
    by (simp add: no_space_run_take no_space_run_strip no_space_run_sub_spaces)
qed

lemma safe_filename_length: "0 \<le> m \<Longrightarrow> int (length (safe_filename s m)) \<le> m"
  by (auto simp: safe_filename_def Let_def slice_to_def)

text \<open>
  C1. For every string and every bound \<open>max_length\<close>, the sanitized name contains none of the
  characters \<open>\ / * ? : " < > |\<close> and no two neighbouring whitespace characters, and its
  length is at most \<open>max_length\<close>, a bound on a length being a number that is not negative;
  with the default bound it has at most 150 characters.
\<close>

theorem safe_filename_clean:
  "(\<forall>c \<in> set (safe_filename s m). c \<notin> set forbidden) \<and>
   no_space_run (safe_filename s m) \<and>
   (0 \<le> m \<longrightarrow> int (length (safe_filename s m)) \<le> m) \<and>
   length (safe_filename s default_max_length) \<le> 150"
proof -
  have "int (length (safe_filename s default_max_length)) \<le> default_max_length"
    by (rule safe_filename_length) (simp add: default_max_length_def)
  then have "length (safe_filename s default_max_length) \<le> 150"
    by (simp add: default_max_length_def)
  then show ?thesis
    using safe_filename_no_forbidden safe_filename_no_space_run safe_filename_length by blast
qed

theorem safe_filename_clean_witness:
  "(0::int) \<le> 3 \<and> safe_filename (py ''a  b?*c d'') 3 = py ''a b'' \<and>
   set (safe_filename (py ''a  b?*c d'') 3) \<inter> set forbidden = {} \<and>
   no_space_run (safe_filename (py ''a  b?*c d'') 3) \<and>
   int (length (safe_filename (py ''a  b?*c d'') 3)) \<le> 3"
  using safe_filename_clean [of "py ''a  b?*c d''" 3]
  by (simp add: safe_filename_def py_def sub_forbidden_def forbidden_def strip_def
      is_space_def slice_to_def)

lemma last_dropWhile: "dropWhile P xs \<noteq> [] \<Longrightarrow> last (dropWhile P xs) = last xs"
  using last_appendR [of "dropWhile P xs" "takeWhile P xs"] by simp

lemma last_strip: "strip s \<noteq> [] \<Longrightarrow> \<not> is_space (last (strip s))"
proof -
  assume a: "strip s \<noteq> []"
  let ?u = "dropWhile is_space (rev (dropWhile is_space s))"
  from a have u: "?u \<noteq> []" by (simp only: strip_def rev_is_Nil_conv not_False_eq_True)
  then have "\<not> is_space (hd ?u)" by (rule hd_dropWhile)
  moreover have "last (strip s) = hd ?u" using u by (simp only: strip_def last_rev)
  ultimately show ?thesis by simp
qed

lemma hd_strip: "strip s \<noteq> [] \<Longrightarrow> \<not> is_space (hd (strip s))"
proof -
  assume a: "strip s \<noteq> []"
  let ?t = "dropWhile is_space s"
  let ?u = "dropWhile is_space (rev ?t)"
  from a have u: "?u \<noteq> []" by (simp only: strip_def rev_is_Nil_conv not_False_eq_True)
  then have t: "?t \<noteq> []" by (metis dropWhile.simps(1) rev.simps(1))
  have "hd (strip s) = last ?u" using u by (simp only: strip_def hd_rev)
  also have "\<dots> = last (rev ?t)" using u by (rule last_dropWhile)
  also have "\<dots> = hd ?t" using t by (simp only: last_rev)
  finally show ?thesis using hd_dropWhile [OF t] by simp
qed

lemma sub_forbidden_id: "set r \<inter> set forbidden = {} \<Longrightarrow> sub_forbidden r = r"
  unfolding sub_forbidden_def by (rule filter_True) auto

lemma sub_spaces_id:
  "(\<forall>c \<in> set r. is_space c \<longrightarrow> c = 32) \<Longrightarrow> no_space_run r \<Longrightarrow> sub_spaces r = r"
proof (induction r rule: sub_spaces.induct)
  case 1 show ?case by simp
next
  case (2 c cs)
  have run: "no_space_run cs" using 2(4) by (cases cs) (simp_all add: no_space_run_def)
  show ?case
  proof (cases "is_space c")
    case True
    then have c: "c = 32" using 2(3) by simp
    have "cs = [] \<or> \<not> is_space (hd cs)"
      using 2(4) True by (cases cs) (simp_all add: no_space_run_def)
    then have d: "dropWhile is_space cs = cs" by (simp only: dropWhile_eq_self_iff)
    have "sub_spaces (dropWhile is_space cs) = dropWhile is_space cs"
      using 2(1) [OF True] 2(3) run d by simp
    with True c d show ?thesis by simp
  next
    case False
    then have "sub_spaces cs = cs" using 2(2) 2(3) run by simp
    with False show ?thesis by simp
  qed
qed

lemma no_space_run_snoc:
  "no_space_run (xs @ [a]) \<Longrightarrow> xs \<noteq> [] \<Longrightarrow> is_space a \<Longrightarrow> \<not> is_space (last xs)"
  by (simp add: no_space_run_def successively_append_iff)

lemma strip_trailing:
  assumes "r = [] \<or> \<not> is_space (hd r)" and "no_space_run r"
  shows "strip r = (if r \<noteq> [] \<and> is_space (last r) then butlast r else r)"
proof -
  have d: "dropWhile is_space r = r" using assms(1) by (simp only: dropWhile_eq_self_iff)
  show ?thesis
  proof (cases "r \<noteq> [] \<and> is_space (last r)")
    case False
    then have "rev r = [] \<or> \<not> is_space (hd (rev r))" by (auto simp: hd_rev)
    then have "dropWhile is_space (rev r) = rev r" by (simp only: dropWhile_eq_self_iff)
    with d False show ?thesis by (auto simp: strip_def)
  next
    case True
    then have r: "r = butlast r @ [last r]" by simp
    have ne: "butlast r \<noteq> []"
    proof
      assume "butlast r = []"
      with r have "r = [last r]" by simp
      then have "hd r = last r" by (metis list.sel(1))
      with True assms(1) show False by simp
    qed
    have "no_space_run (butlast r @ [last r])" using assms(2) r by simp
    then have "\<not> is_space (last (butlast r))"
      using ne True by (metis no_space_run_snoc)
    then have "\<not> is_space (hd (rev (butlast r)))" using ne by (simp add: hd_rev)
    then have e: "dropWhile is_space (rev (butlast r)) = rev (butlast r)"
      by (simp add: dropWhile_eq_self_iff)
    have rr: "rev r = last r # rev (butlast r)" using r by (metis rev_eq_Cons_iff rev_rev_ident)
    have "dropWhile is_space (last r # rev (butlast r)) = rev (butlast r)" using True e by simp
    then have "dropWhile is_space (rev r) = rev (butlast r)" by (simp only: rr)
    with d True show ?thesis by (simp add: strip_def)
  qed
qed

lemma safe_filename_cleaned:
  "safe_filename s m = (if int (length (cleaned s)) > m then slice_to (cleaned s) m else cleaned s)"
  by (simp add: safe_filename_def cleaned_def Let_def)

lemma spaces_safe_filename: "c \<in> set (safe_filename s m) \<Longrightarrow> is_space c \<Longrightarrow> c = 32"
proof -
  assume a: "c \<in> set (safe_filename s m)" and b: "is_space c"
  obtain n where "safe_filename s m = take n (strip (sub_spaces (sub_forbidden s)))"
    using safe_filename_take by blast
  with a have "c \<in> set (strip (sub_spaces (sub_forbidden s)))" by (auto dest: in_set_takeD)
  then have "c \<in> set (sub_spaces (sub_forbidden s))" using set_strip by blast
  then show ?thesis using b by (rule spaces_sub_spaces)
qed

lemma hd_safe_filename: "safe_filename s m = [] \<or> \<not> is_space (hd (safe_filename s m))"
proof -
  obtain n where n: "safe_filename s m = take n (strip (sub_spaces (sub_forbidden s)))"
    using safe_filename_take by blast
  show ?thesis
  proof (cases "safe_filename s m = []")
    case True then show ?thesis by simp
  next
    case False
    with n have "n \<noteq> 0" and ne: "strip (sub_spaces (sub_forbidden s)) \<noteq> []" by auto
    then have "hd (safe_filename s m) = hd (strip (sub_spaces (sub_forbidden s)))"
      using n by simp
    then show ?thesis using hd_strip [OF ne] by simp
  qed
qed

lemma safe_filename_again:
  assumes "0 \<le> m"
  shows "safe_filename (safe_filename s m) m =
    (if safe_filename s m \<noteq> [] \<and> last (safe_filename s m) = 32
     then butlast (safe_filename s m) else safe_filename s m)"
proof -
  let ?r = "safe_filename s m"
  have f: "sub_forbidden ?r = ?r"
    by (rule sub_forbidden_id) (use safe_filename_no_forbidden in auto)
  have sp: "\<forall>c \<in> set ?r. is_space c \<longrightarrow> c = 32" using spaces_safe_filename by blast
  have g: "sub_spaces ?r = ?r" using sp safe_filename_no_space_run by (rule sub_spaces_id)
  have h: "strip ?r = (if ?r \<noteq> [] \<and> is_space (last ?r) then butlast ?r else ?r)"
    using hd_safe_filename safe_filename_no_space_run by (rule strip_trailing)
  have l: "?r \<noteq> [] \<Longrightarrow> is_space (last ?r) \<longleftrightarrow> last ?r = 32"
    using sp is_space_32 last_in_set [of ?r] by auto
  have len: "int (length ?r) \<le> m" using assms by (rule safe_filename_length)
  then have len': "int (length (strip ?r)) \<le> m" using h by (auto split: if_splits)
  have "safe_filename ?r m = strip ?r"
    using len' unfolding safe_filename_def [of ?r m] Let_def f g by simp
  with h l show ?thesis by auto
qed

lemma last_cleaned: "cleaned s \<noteq> [] \<Longrightarrow> last (cleaned s) \<noteq> 32"
  using last_strip [of "sub_spaces (sub_forbidden s)"] is_space_32 by (auto simp: cleaned_def)

lemma sub_spaces_nonspace_prefix:
  "\<forall>c \<in> set xs. \<not> is_space c \<Longrightarrow> sub_spaces (xs @ ys) = xs @ sub_spaces ys"
  by (induction xs) auto

lemma strip_id: "s \<noteq> [] \<Longrightarrow> \<not> is_space (hd s) \<Longrightarrow> \<not> is_space (last s) \<Longrightarrow> strip s = s"
proof -
  assume a: "s \<noteq> []" "\<not> is_space (hd s)" "\<not> is_space (last s)"
  then have "dropWhile is_space s = s" by (simp add: dropWhile_eq_self_iff)
  moreover have "dropWhile is_space (rev s) = rev s" using a by (simp add: dropWhile_eq_self_iff hd_rev)
  ultimately show ?thesis by (simp add: strip_def)
qed

lemma safe_filename_long:
  "safe_filename (replicate 149 97 @ [32, 98]) 150 = replicate 149 97 @ [32]"
proof -
  let ?s = "replicate 149 97 @ [32, 98::nat]"
  have f: "sub_forbidden ?s = ?s" by (simp add: sub_forbidden_def forbidden_def)
  have "sub_spaces ?s = replicate 149 97 @ sub_spaces [32, 98]"
    by (rule sub_spaces_nonspace_prefix) (simp add: is_space_def)
  then have g: "sub_spaces ?s = ?s" by (simp add: is_space_def)
  have h: "strip ?s = ?s" by (rule strip_id) (simp_all add: is_space_def)
  show ?thesis unfolding safe_filename_def Let_def f g h by (simp add: slice_to_def)
qed

text \<open>
  C2, as amended. With the default \<open>max_length\<close>, sanitizing a sanitized name gives the same
  name, except that one trailing space is removed when the name ends in a space; and a
  sanitized name ends in a space only when it was cut to exactly \<open>max_length\<close> characters.
\<close>

theorem safe_filename_default_twice:
  "safe_filename (safe_filename s default_max_length) default_max_length =
     (if safe_filename s default_max_length \<noteq> [] \<and> last (safe_filename s default_max_length) = 32
      then butlast (safe_filename s default_max_length)
      else safe_filename s default_max_length) \<and>
   (safe_filename s default_max_length \<noteq> [] \<and> last (safe_filename s default_max_length) = 32
      \<longrightarrow> int (length (safe_filename s default_max_length)) = default_max_length)"
proof -
  have "0 \<le> default_max_length" by (simp add: default_max_length_def)
  then have a: "safe_filename (safe_filename s default_max_length) default_max_length =
     (if safe_filename s default_max_length \<noteq> [] \<and> last (safe_filename s default_max_length) = 32
      then butlast (safe_filename s default_max_length)
      else safe_filename s default_max_length)" by (rule safe_filename_again)
  have b: "int (length (safe_filename s default_max_length)) = default_max_length"
    if "safe_filename s default_max_length \<noteq> []" "last (safe_filename s default_max_length) = 32"
  proof (cases "int (length (cleaned s)) > default_max_length")
    case True
    then show ?thesis by (simp add: safe_filename_cleaned slice_to_def default_max_length_def)
  next
    case False
    then have "safe_filename s default_max_length = cleaned s" by (simp add: safe_filename_cleaned)
    with that last_cleaned [of s] show ?thesis by simp
  qed
  from a b show ?thesis by blast
qed

theorem safe_filename_default_twice_witness:
  "safe_filename (replicate 149 97 @ [32, 98]) default_max_length \<noteq> [] \<and>
   last (safe_filename (replicate 149 97 @ [32, 98]) default_max_length) = 32 \<and>
   int (length (safe_filename (replicate 149 97 @ [32, 98]) default_max_length)) = default_max_length \<and>
   safe_filename (safe_filename (replicate 149 97 @ [32, 98]) default_max_length) default_max_length
     = replicate 149 97"
  using safe_filename_default_twice [of "replicate 149 97 @ [32, 98]"]
  by (simp add: default_max_length_def safe_filename_long)

text \<open>
  C2 as stated fails: a title of 149 letters, a space and one more letter is cut after the
  space, and the second application strips that space.
\<close>

theorem safe_filename_not_idempotent:
  "safe_filename (safe_filename (replicate 149 97 @ [32, 98]) default_max_length) default_max_length
     \<noteq> safe_filename (replicate 149 97 @ [32, 98]) default_max_length"
proof -
  have "safe_filename (safe_filename (replicate 149 97 @ [32, 98]) 150) 150 = replicate 149 97"
    using safe_filename_again [of 150 "replicate 149 97 @ [32, 98]"]
    by (simp add: safe_filename_long)
  then show ?thesis by (simp add: default_max_length_def safe_filename_long)
qed

section \<open>Properties of the placement\<close>

lemma dest_loop_spec:
  "path_exists d dest \<Longrightarrow>
   \<exists>k\<ge>i. dest_loop d name dest i = numbered name k \<and> \<not> path_exists d (numbered name k) \<and>
          (\<forall>j. i \<le> j \<and> j < k \<longrightarrow> path_exists d (numbered name j))"
proof (induction d name dest i rule: dest_loop.induct)
  case (1 d name dest i)
  have step: "dest_loop d name dest i = dest_loop d name (numbered name i) (i + 1)"
    using 1(2) by (simp add: dest_loop.simps [of d name dest i])
  show ?case
  proof (cases "path_exists d (numbered name i)")
    case False
    then have "dest_loop d name (numbered name i) (i + 1) = numbered name i"
      by (simp add: dest_loop.simps [of d name "numbered name i"])
    with step False show ?thesis by auto
  next
    case True
    from 1(1) [OF 1(2) True] obtain k where k: "i + 1 \<le> k"
      "dest_loop d name (numbered name i) (i + 1) = numbered name k"
      "\<not> path_exists d (numbered name k)"
      "\<forall>j. i + 1 \<le> j \<and> j < k \<longrightarrow> path_exists d (numbered name j)" by blast
    have "\<forall>j. i \<le> j \<and> j < k \<longrightarrow> path_exists d (numbered name j)"
    proof (intro allI impI)
      fix j assume "i \<le> j \<and> j < k"
      then show "path_exists d (numbered name j)" using True k(4) by (cases "j = i") auto
    qed
    with step k show ?thesis by (intro exI [of _ k]) auto
  qed
qed

lemma choose_dest_free:
  "\<not> path_exists d (safe_filename (stem cand) default_max_length @ py ''.mp3'') \<Longrightarrow>
   choose_dest d cand = safe_filename (stem cand) default_max_length @ py ''.mp3''"
  by (simp add: choose_dest_def Let_def)

lemma choose_dest_taken:
  assumes "path_exists d (safe_filename (stem cand) default_max_length @ py ''.mp3'')"
  shows "\<exists>k\<ge>1. choose_dest d cand = numbered (safe_filename (stem cand) default_max_length) k \<and>
          \<not> path_exists d (numbered (safe_filename (stem cand) default_max_length) k) \<and>
          (\<forall>j. 1 \<le> j \<and> j < k \<longrightarrow>
               path_exists d (numbered (safe_filename (stem cand) default_max_length) j))"
proof -
  have "choose_dest d cand =
      dest_loop d (safe_filename (stem cand) default_max_length)
        (safe_filename (stem cand) default_max_length @ py ''.mp3'') 1"
    using assms by (simp add: choose_dest_def Let_def)
  then show ?thesis using dest_loop_spec [OF assms, of 1 "safe_filename (stem cand) default_max_length"]
    by simp
qed

lemma choose_dest_first_free:
  assumes "path_exists d (safe_filename (stem cand) default_max_length @ py ''.mp3'')"
    and "1 \<le> n"
    and "\<forall>j. 1 \<le> j \<and> j < n \<longrightarrow> path_exists d (numbered (safe_filename (stem cand) default_max_length) j)"
    and "\<not> path_exists d (numbered (safe_filename (stem cand) default_max_length) n)"
  shows "choose_dest d cand = numbered (safe_filename (stem cand) default_max_length) n"
proof -
  let ?s = "safe_filename (stem cand) default_max_length"
  obtain k where k: "1 \<le> k" "choose_dest d cand = numbered ?s k"
    "\<not> path_exists d (numbered ?s k)"
    "\<forall>j. 1 \<le> j \<and> j < k \<longrightarrow> path_exists d (numbered ?s j)"
    using choose_dest_taken [OF assms(1)] by blast
  have "\<not> k < n" using assms(3) k(1,3) by blast
  moreover have "\<not> n < k" using assms(2,4) k(4) by blast
  ultimately have "k = n" by simp
  with k(2) show ?thesis by simp
qed

lemma choose_dest_fresh: "\<not> path_exists d (choose_dest d cand)"
proof (cases "path_exists d (safe_filename (stem cand) default_max_length @ py ''.mp3'')")
  case True
  then show ?thesis using choose_dest_taken [OF True] by auto
next
  case False
  then show ?thesis by (simp add: choose_dest_free)
qed

lemma numbered_Song_1: "numbered (py ''Song'') (Suc 0) = py ''Song (1).mp3''"
  by (simp add: numbered_def py_def str_nat.simps)

lemma numbered_Song_2: "numbered (py ''Song'') 2 = py ''Song (2).mp3''"
  by (simp add: numbered_def py_def str_nat.simps)

text \<open>
  C3. When the name \<open>safe_filename(stem) + ".mp3"\<close> exists in the output directory, the name
  chosen is the numbered name \<open>stem (k).mp3\<close> for the least \<open>k\<close> from 1 on that does not exist.
  With \<open>Song.mp3\<close> present, a candidate whose sanitized stem is \<open>Song\<close> gets \<open>Song (1).mp3\<close>, and
  with that one present too it gets \<open>Song (2).mp3\<close>.
\<close>

theorem choose_dest_counter:
  "(path_exists d (safe_filename (stem cand) default_max_length @ py ''.mp3'') \<longrightarrow>
      (\<exists>k\<ge>1. choose_dest d cand = numbered (safe_filename (stem cand) default_max_length) k \<and>
          \<not> path_exists d (numbered (safe_filename (stem cand) default_max_length) k) \<and>
          (\<forall>j. 1 \<le> j \<and> j < k \<longrightarrow>
               path_exists d (numbered (safe_filename (stem cand) default_max_length) j)))) \<and>
   (safe_filename (stem cand) default_max_length = py ''Song'' \<and>
    path_exists d (py ''Song.mp3'') \<and> \<not> path_exists d (py ''Song (1).mp3'')
      \<longrightarrow> choose_dest d cand = py ''Song (1).mp3'') \<and>
   (safe_filename (stem cand) default_max_length = py ''Song'' \<and>
    path_exists d (py ''Song.mp3'') \<and> path_exists d (py ''Song (1).mp3'') \<and>
    \<not> path_exists d (py ''Song (2).mp3'')
      \<longrightarrow> choose_dest d cand = py ''Song (2).mp3'')"
proof (intro conjI impI)
  assume "path_exists d (safe_filename (stem cand) default_max_length @ py ''.mp3'')"
  then show "\<exists>k\<ge>1. choose_dest d cand = numbered (safe_filename (stem cand) default_max_length) k \<and>
          \<not> path_exists d (numbered (safe_filename (stem cand) default_max_length) k) \<and>
          (\<forall>j. 1 \<le> j \<and> j < k \<longrightarrow>
               path_exists d (numbered (safe_filename (stem cand) default_max_length) j))"
    by (rule choose_dest_taken)
next
  assume a: "safe_filename (stem cand) default_max_length = py ''Song'' \<and>
    path_exists d (py ''Song.mp3'') \<and> \<not> path_exists d (py ''Song (1).mp3'')"
  then have b: "path_exists d (safe_filename (stem cand) default_max_length @ py ''.mp3'')"
    by (simp add: py_def)
  have "choose_dest d cand = numbered (safe_filename (stem cand) default_max_length) 1"
    using b by (rule choose_dest_first_free) (use a in \<open>simp_all add: numbered_Song_1\<close>)
  with a show "choose_dest d cand = py ''Song (1).mp3''" by (simp add: numbered_Song_1)
next
  assume a: "safe_filename (stem cand) default_max_length = py ''Song'' \<and>
    path_exists d (py ''Song.mp3'') \<and> path_exists d (py ''Song (1).mp3'') \<and>
    \<not> path_exists d (py ''Song (2).mp3'')"
  then have b: "path_exists d (safe_filename (stem cand) default_max_length @ py ''.mp3'')"
    by (simp add: py_def)
  have c: "\<forall>j. 1 \<le> j \<and> j < 2 \<longrightarrow> path_exists d (numbered (safe_filename (stem cand) default_max_length) j)"
  proof (intro allI impI)
    fix j :: nat assume "1 \<le> j \<and> j < 2"
    then have "j = 1" by simp
    with a show "path_exists d (numbered (safe_filename (stem cand) default_max_length) j)"
      by (simp add: numbered_Song_1)
  qed
  have "choose_dest d cand = numbered (safe_filename (stem cand) default_max_length) 2"
    using b _ c by (rule choose_dest_first_free) (use a in \<open>simp_all add: numbered_Song_2\<close>)
  with a show "choose_dest d cand = py ''Song (2).mp3''" by (simp add: numbered_Song_2)
qed

theorem choose_dest_counter_witness:
  "choose_dest [(py ''Song.mp3'', \<lparr>data = [], mode = 420\<rparr>)] (py ''Song.mp3'')
     = py ''Song (1).mp3'' \<and>
   choose_dest [(py ''Song.mp3'', \<lparr>data = [], mode = 420\<rparr>),
                (py ''Song (1).mp3'', \<lparr>data = [], mode = 420\<rparr>)] (py ''Song.mp3'')
     = py ''Song (2).mp3'' \<and>
   fst (download_and_validate (example_env [(py ''Song.mp3'', \<lparr>data = [1], mode = 420\<rparr>)])
          (py ''https://example.org/v'')
          (Some [(py ''Song.mp3'', \<lparr>data = [], mode = 420\<rparr>)]) (py ''192''))
     = Inr [py ''Song (1).mp3'']"
proof -
  let ?f = "\<lparr>data = [], mode = 420\<rparr>"
  let ?d1 = "[(py ''Song.mp3'', ?f)]"
  let ?d2 = "[(py ''Song.mp3'', ?f), (py ''Song (1).mp3'', ?f)]"
  have s: "safe_filename (stem (py ''Song.mp3'')) default_max_length = py ''Song''"
    by (simp add: string_defs)
  have h1: "path_exists ?d1 (py ''Song.mp3'') \<and> \<not> path_exists ?d1 (py ''Song (1).mp3'')"
    by (simp add: path_exists_def py_def)
  have h2: "path_exists ?d2 (py ''Song.mp3'') \<and> path_exists ?d2 (py ''Song (1).mp3'') \<and>
      \<not> path_exists ?d2 (py ''Song (2).mp3'')"
    by (simp add: path_exists_def py_def)
  have a: "choose_dest ?d1 (py ''Song.mp3'') = py ''Song (1).mp3''"
    using choose_dest_counter [of ?d1 "py ''Song.mp3''"] s h1 by blast
  have b: "choose_dest ?d2 (py ''Song.mp3'') = py ''Song (2).mp3''"
    using choose_dest_counter [of ?d2 "py ''Song.mp3''"] s h2 by blast
  have c: "fst (download_and_validate (example_env [(py ''Song.mp3'', \<lparr>data = [1], mode = 420\<rparr>)])
          (py ''https://example.org/v'')
          (Some [(py ''Song.mp3'', \<lparr>data = [], mode = 420\<rparr>)]) (py ''192''))
     = Inr [py ''Song (1).mp3'']"
    by (simp add: run_defs string_defs)
  from a b c show ?thesis by blast
qed

lemma map_of_chmod_entry:
  "map_of (chmod_entry dst m d) k = map_option (\<lambda>f. if k = dst then f\<lparr>mode := m\<rparr> else f) (map_of d k)"
  by (induction d) (auto simp: chmod_entry_def)







section \<open>Properties of the validator\<close>

lemma ffprobe_recognizes_mp3_iff:
  "fst (ffprobe_recognizes_mp3 e path f) \<longleftrightarrow>
     which_ffprobe e \<and>
     (\<exists>c. subprocess_run e (ffprobe_argv path) 15 f = Inr c \<and>
          py_in (py ''mp3'') (lower (stdout c)))"
  by (auto simp: ffprobe_recognizes_mp3_def split: sum.splits)

lemma ffprobe_calls:
  "snd (ffprobe_recognizes_mp3 e path f) =
     (if which_ffprobe e then [Subprocess_run (ffprobe_argv path) 15] else [])"
  by (auto simp: ffprobe_recognizes_mp3_def split: sum.splits)

lemma candidate_ok_iff:
  "fst (candidate_ok e path f) \<longleftrightarrow>
     fst (ffprobe_recognizes_mp3 e path f) \<or>
     (\<exists>res. subprocess_run e (ffmpeg_argv path) 20 f = Inr res \<and> returncode res = 0)"
  by (cases "ffprobe_recognizes_mp3 e path f")
     (auto simp: candidate_ok_def split: sum.splits)

lemma candidate_ok_calls:
  "snd (candidate_ok e path f) =
     snd (ffprobe_recognizes_mp3 e path f) @
     (if fst (ffprobe_recognizes_mp3 e path f) then [] else [Subprocess_run (ffmpeg_argv path) 20])"
  by (cases "ffprobe_recognizes_mp3 e path f")
     (auto simp: candidate_ok_def split: sum.splits)

text \<open>
  C6, as amended. The fallback decode, \<open>ffmpeg ... -f null -\<close> with a timeout of 20 seconds,
  runs exactly when the primary check did not accept: when the inspection tool is not
  installed, when running it raised, or when its report lacks \<open>mp3\<close>. A candidate is accepted
  exactly when the primary check accepts or the fallback decode exits with status 0.
\<close>

theorem fallback_runs_when_not_recognized:
  "(Subprocess_run (ffmpeg_argv path) 20 \<in> set (snd (candidate_ok e path f)) \<longleftrightarrow>
      \<not> (which_ffprobe e \<and>
         (\<exists>c. subprocess_run e (ffprobe_argv path) 15 f = Inr c \<and>
              py_in (py ''mp3'') (lower (stdout c))))) \<and>
   (fst (candidate_ok e path f) \<longleftrightarrow>
      (which_ffprobe e \<and>
         (\<exists>c. subprocess_run e (ffprobe_argv path) 15 f = Inr c \<and>
              py_in (py ''mp3'') (lower (stdout c)))) \<or>
      (\<exists>res. subprocess_run e (ffmpeg_argv path) 20 f = Inr res \<and> returncode res = 0))"
proof -
  have "Subprocess_run (ffmpeg_argv path) 20 \<notin> set (snd (ffprobe_recognizes_mp3 e path f))"
    by (simp add: ffprobe_calls)
  then have "Subprocess_run (ffmpeg_argv path) 20 \<in> set (snd (candidate_ok e path f)) \<longleftrightarrow>
      \<not> fst (ffprobe_recognizes_mp3 e path f)"
    by (simp add: candidate_ok_calls)
  then show ?thesis
    unfolding candidate_ok_iff ffprobe_recognizes_mp3_iff by blast
qed

text \<open>
  C6 as stated fails: with the inspection tool installed and reporting \<open>wav\<close>, the fallback
  decode runs all the same, and its status 0 makes the candidate accepted.
\<close>

theorem fallback_runs_with_ffprobe_available:
  "which_ffprobe wav_env \<and>
   subprocess_run wav_env (ffprobe_argv (py ''/tmp/tmpdir/Song.mp3'')) 15 None
     = Inr (Completed (py ''wav'' @ [10]) 0) \<and>
   \<not> py_in (py ''mp3'') (lower (py ''wav'' @ [10])) \<and>
   candidate_ok wav_env (py ''/tmp/tmpdir/Song.mp3'') None =
     (True, [Subprocess_run (ffprobe_argv (py ''/tmp/tmpdir/Song.mp3'')) 15,
             Subprocess_run (ffmpeg_argv (py ''/tmp/tmpdir/Song.mp3'')) 20])"
  by (simp add: wav_env_def example_env_def candidate_ok_def ffprobe_recognizes_mp3_def
      ffprobe_argv_def ffmpeg_argv_def lower_def py_def)

lemma calls_try_unlink: "calls (try_unlink e w c) = calls w"
  by (simp add: try_unlink_def split: option.splits)

lemma calls_try_chmod: "calls (try_chmod e w c) = calls w"
  by (simp add: try_chmod_def split: option.splits)

lemma calls_os_replace: "os_replace e w src dst = Inr w' \<Longrightarrow> calls w' = calls w"
  by (auto simp: os_replace_def split: option.splits)

lemma calls_process_candidate:
  "calls (snd (process_candidate e (acc, w) cand)) =
     calls w @ snd (candidate_ok e (mkdtemp e @ py ''/'' @ cand) (map_of (listing (scratch w)) cand))"
proof -
  obtain ok cs where c: "candidate_ok e (mkdtemp e @ py ''/'' @ cand)
      (map_of (listing (scratch w)) cand) = (ok, cs)"
    by (cases "candidate_ok e (mkdtemp e @ py ''/'' @ cand) (map_of (listing (scratch w)) cand)")
  show ?thesis
  proof (cases ok)
    case False
    with c show ?thesis by (simp add: process_candidate_def Let_def calls_try_unlink)
  next
    case True
    show ?thesis
    proof (cases "os_replace e (w\<lparr>calls := calls w @ cs\<rparr>) cand
        (choose_dest (listing (final w)) cand)")
      case (Inl ex)
      with c True show ?thesis by (simp add: process_candidate_def Let_def)
    next
      case (Inr w2)
      then have "calls w2 = calls w @ cs" using calls_os_replace [OF Inr] by simp
      with c True Inr show ?thesis by (simp add: process_candidate_def Let_def calls_try_chmod)
    qed
  qed
qed

lemma candidate_probed:
  "Subprocess_run (ffprobe_argv path) 15 \<in> set (snd (candidate_ok e path f)) \<or>
   Subprocess_run (ffmpeg_argv path) 20 \<in> set (snd (candidate_ok e path f))"
  by (simp add: candidate_ok_calls ffprobe_calls ffprobe_recognizes_mp3_iff)

lemma calls_mono_process_candidates:
  "set (calls (snd st)) \<subseteq> set (calls (snd (process_candidates e st cands)))"
proof (induction cands arbitrary: st)
  case Nil
  show ?case by (simp add: process_candidates_def)
next
  case (Cons c cands)
  obtain acc w where st: "st = (acc, w)" by (cases st)
  have "set (calls (snd st)) \<subseteq> set (calls (snd (process_candidate e st c)))"
    by (simp add: st calls_process_candidate)
  also have "\<dots> \<subseteq> set (calls (snd (process_candidates e (process_candidate e st c) cands)))"
    by (rule Cons.IH)
  finally show ?case by (simp add: process_candidates_def)
qed

lemma every_candidate_probed:
  "cand \<in> set cands \<Longrightarrow>
   Subprocess_run (ffprobe_argv (mkdtemp e @ py ''/'' @ cand)) 15
     \<in> set (calls (snd (process_candidates e st cands))) \<or>
   Subprocess_run (ffmpeg_argv (mkdtemp e @ py ''/'' @ cand)) 20
     \<in> set (calls (snd (process_candidates e st cands)))"
proof (induction cands arbitrary: st)
  case Nil
  then show ?case by simp
next
  case (Cons c cands)
  obtain acc w where st: "st = (acc, w)" by (cases st)
  have unfold: "process_candidates e st (c # cands) =
      process_candidates e (process_candidate e st c) cands"
    by (simp add: process_candidates_def)
  show ?case
  proof (cases "cand = c")
    case True
    have "Subprocess_run (ffprobe_argv (mkdtemp e @ py ''/'' @ cand)) 15
        \<in> set (calls (snd (process_candidate e st c))) \<or>
      Subprocess_run (ffmpeg_argv (mkdtemp e @ py ''/'' @ cand)) 20
        \<in> set (calls (snd (process_candidate e st c)))"
      using candidate_probed [of "mkdtemp e @ py ''/'' @ c" e "map_of (listing (scratch w)) c"]
      by (auto simp: st True calls_process_candidate)
    then show ?thesis
      unfolding unfold using calls_mono_process_candidates [of "process_candidate e st c" e cands]
      by blast
  next
    case False
    with Cons.prems have "cand \<in> set cands" by simp
    then show ?thesis unfolding unfold by (rule Cons.IH)
  qed
qed

lemma rmtree_ok: "\<forall>n \<in> fst ` set d. raises n = None \<Longrightarrow> rmtree raises d = ([], None)"
  by (induction d) auto

lemma final_cleanup: "final (snd (cleanup e w)) = final w"
  by (simp add: cleanup_def split: option.splits prod.splits)

lemma calls_cleanup: "calls (snd (cleanup e w)) = calls w"
  by (simp add: cleanup_def split: option.splits prod.splits)

lemma scratch_cleanup: "scratch (snd (cleanup e w)) = None \<longleftrightarrow> fst (cleanup e w) = None"
  by (simp add: cleanup_def split: option.splits prod.splits)

lemma cleanup_ok:
  assumes "\<forall>n. rmtree_raises e n = None" and "rmdir_raises e = None"
  shows "fst (cleanup e w) = None"
proof (cases "scratch w")
  case None
  then show ?thesis by (simp add: cleanup_def)
next
  case (Some d)
  have "rmtree (rmtree_raises e) d = ([], None)" using assms(1) by (simp add: rmtree_ok)
  with Some assms(2) show ?thesis by (simp add: cleanup_def)
qed

lemma download_and_validate_run:
  assumes "(if d = None then mkdir_raises e else None) = None"
  shows "fst (download_and_validate e url d q) =
      (case fst (cleanup e (snd (with_body e url q
          \<lparr>scratch = Some [], final = Some (listing d), msgs = [], calls = []\<rparr>))) of
         None \<Rightarrow> fst (with_body e url q
          \<lparr>scratch = Some [], final = Some (listing d), msgs = [], calls = []\<rparr>)
       | Some ex \<Rightarrow> Inl ex)"
    and "snd (download_and_validate e url d q) =
      snd (cleanup e (snd (with_body e url q
          \<lparr>scratch = Some [], final = Some (listing d), msgs = [], calls = []\<rparr>)))"
  using assms
  by (simp_all add: download_and_validate_def Let_def case_prod_beta split: option.splits)

lemma with_body_returns:
  "snd (youtube_dl e url (make_ydl_opts (mkdtemp e) quality)) = None \<Longrightarrow>
   \<exists>accepted. fst (with_body e url quality w) = Inr accepted"
  by (cases "youtube_dl e url (make_ydl_opts (mkdtemp e) quality)")
     (auto simp: with_body_def Let_def split: prod.splits)

text \<open>
  C7, as amended. An exception raised by the decode tool rejects the candidate. An exception
  raised by the inspection tool makes the primary check fail, and the fallback decode then
  decides. No such exception leaves the validation step: whenever creating the output
  directory and the download do not raise, the body of the pipeline returns its list whatever
  the tools do, and the run returns that list unless the removal of the temporary directory
  raises, which is then the exception of the run; and every candidate of the loop is probed
  by at least one tool.
\<close>

theorem tool_exceptions_contained:
  "(\<not> fst (ffprobe_recognizes_mp3 e path f) \<and>
    subprocess_run e (ffmpeg_argv path) 20 f = Inl ex
      \<longrightarrow> \<not> fst (candidate_ok e path f)) \<and>
   (which_ffprobe e \<and> subprocess_run e (ffprobe_argv path) 15 f = Inl ex
      \<longrightarrow> \<not> fst (ffprobe_recognizes_mp3 e path f) \<and>
          (fst (candidate_ok e path f) \<longleftrightarrow>
             (\<exists>res. subprocess_run e (ffmpeg_argv path) 20 f = Inr res \<and> returncode res = 0))) \<and>
   ((if d = None then mkdir_raises e else None) = None \<and>
    snd (youtube_dl e url (make_ydl_opts (mkdtemp e) quality)) = None
      \<longrightarrow> (\<exists>accepted.
            fst (with_body e url quality
              \<lparr>scratch = Some [], final = Some (listing d), msgs = [], calls = []\<rparr>)
              = Inr accepted \<and>
            fst (download_and_validate e url d quality) =
              (case fst (cleanup e (snd (with_body e url quality
                  \<lparr>scratch = Some [], final = Some (listing d), msgs = [], calls = []\<rparr>))) of
                 None \<Rightarrow> Inr accepted
               | Some ex \<Rightarrow> Inl ex))) \<and>
   (cand \<in> set cands
      \<longrightarrow> Subprocess_run (ffprobe_argv (mkdtemp e @ py ''/'' @ cand)) 15
            \<in> set (calls (snd (process_candidates e st cands))) \<or>
          Subprocess_run (ffmpeg_argv (mkdtemp e @ py ''/'' @ cand)) 20
            \<in> set (calls (snd (process_candidates e st cands))))"
proof (intro conjI impI)
  assume "\<not> fst (ffprobe_recognizes_mp3 e path f) \<and>
    subprocess_run e (ffmpeg_argv path) 20 f = Inl ex"
  then show "\<not> fst (candidate_ok e path f)" by (simp add: candidate_ok_iff)
next
  assume a: "which_ffprobe e \<and> subprocess_run e (ffprobe_argv path) 15 f = Inl ex"
  then show n: "\<not> fst (ffprobe_recognizes_mp3 e path f)"
    by (simp add: ffprobe_recognizes_mp3_iff)
  then show "fst (candidate_ok e path f) \<longleftrightarrow>
      (\<exists>res. subprocess_run e (ffmpeg_argv path) 20 f = Inr res \<and> returncode res = 0)"
    by (simp add: candidate_ok_iff)
next
  assume a: "(if d = None then mkdir_raises e else None) = None \<and>
    snd (youtube_dl e url (make_ydl_opts (mkdtemp e) quality)) = None"
  then obtain accepted where
    "fst (with_body e url quality
       \<lparr>scratch = Some [], final = Some (listing d), msgs = [], calls = []\<rparr>) = Inr accepted"
    using with_body_returns by blast
  with a show "\<exists>accepted.
      fst (with_body e url quality
        \<lparr>scratch = Some [], final = Some (listing d), msgs = [], calls = []\<rparr>) = Inr accepted \<and>
      fst (download_and_validate e url d quality) =
        (case fst (cleanup e (snd (with_body e url quality
            \<lparr>scratch = Some [], final = Some (listing d), msgs = [], calls = []\<rparr>))) of
           None \<Rightarrow> Inr accepted
         | Some ex \<Rightarrow> Inl ex)"
    by (simp add: download_and_validate_run(1) split: option.splits)
next
  assume "cand \<in> set cands"
  then show "Subprocess_run (ffprobe_argv (mkdtemp e @ py ''/'' @ cand)) 15
            \<in> set (calls (snd (process_candidates e st cands))) \<or>
          Subprocess_run (ffmpeg_argv (mkdtemp e @ py ''/'' @ cand)) 20
            \<in> set (calls (snd (process_candidates e st cands)))"
    by (rule every_candidate_probed)
qed

text \<open>
  C7 as stated fails: the inspection tool times out, the fallback decode exits with status 0,
  and the candidate is accepted and placed.
\<close>

theorem inspection_exception_yet_accepted:
  "which_ffprobe timeout_env \<and>
   subprocess_run timeout_env (ffprobe_argv (py ''/tmp/tmpdir/Song.mp3'')) 15
       (Some \<lparr>data = [73, 68, 51], mode = 420\<rparr>) = Inl (Exn (py ''TimeoutExpired'')) \<and>
   fst (candidate_ok timeout_env (py ''/tmp/tmpdir/Song.mp3'')
          (Some \<lparr>data = [73, 68, 51], mode = 420\<rparr>)) \<and>
   fst (download_and_validate timeout_env (py ''https://example.org/v'') (Some []) (py ''192''))
     = Inr [py ''Song.mp3'']"
  by (simp add: timeout_env_def run_defs string_defs)

theorem tool_exceptions_contained_witness:
  "\<not> fst (candidate_ok raising_env (py ''/tmp/tmpdir/Song.mp3'')
            (Some \<lparr>data = [73, 68, 51], mode = 420\<rparr>)) \<and>
   fst (download_and_validate raising_env (py ''https://example.org/v'') (Some []) (py ''192''))
     = Inr []"
proof -
  let ?p = "py ''/tmp/tmpdir/Song.mp3''"
  let ?f = "Some \<lparr>data = [73, 68, 51], mode = 420\<rparr>"
  have h: "\<not> fst (ffprobe_recognizes_mp3 raising_env ?p ?f) \<and>
      subprocess_run raising_env (ffmpeg_argv ?p) 20 ?f = Inl (Exn (py ''TimeoutExpired''))"
    by (simp add: raising_env_def example_env_def ffprobe_recognizes_mp3_def)
  have a: "\<not> fst (candidate_ok raising_env ?p ?f)"
    using tool_exceptions_contained [of raising_env ?p ?f "Exn (py ''TimeoutExpired'')"] h
    by blast
  have b: "fst (download_and_validate raising_env (py ''https://example.org/v'') (Some [])
      (py ''192'')) = Inr []"
    by (simp add: raising_env_def run_defs string_defs)
  from a b show ?thesis by blast
qed

section \<open>Properties of the pipeline\<close>

lemma final_try_unlink: "final (try_unlink e w c) = final w"
  by (simp add: try_unlink_def split: option.splits)

lemma scratch_try_chmod: "scratch (try_chmod e w c) = scratch w"
  by (simp add: try_chmod_def split: option.splits)

lemma map_le_update_fresh:
  "\<not> path_exists d n \<Longrightarrow> map_of d \<subseteq>\<^sub>m map_of (AList.update n f d)"
  by (auto simp: map_le_def path_exists_def AList.update_conv' dom_def)

lemma map_le_chmod_fresh:
  assumes "\<not> path_exists d n" and "map_of d \<subseteq>\<^sub>m map_of d'"
  shows "map_of d \<subseteq>\<^sub>m map_of (chmod_entry n m d')"
  unfolding map_le_def
proof
  fix a assume a: "a \<in> dom (map_of d)"
  with assms(1) have "a \<noteq> n" by (auto simp: path_exists_def)
  then have "map_of (chmod_entry n m d') a = map_of d' a"
    by (simp add: map_of_chmod_entry option.map_ident)
  moreover have "map_of d a = map_of d' a" using assms(2) a by (simp add: map_le_def)
  ultimately show "map_of d a = map_of (chmod_entry n m d') a" by simp
qed

lemma final_process_candidate:
  "map_of (listing (final w)) \<subseteq>\<^sub>m
   map_of (listing (final (snd (process_candidate e (acc, w) cand))))"
proof -
  obtain ok cs where c: "candidate_ok e (mkdtemp e @ py ''/'' @ cand)
      (map_of (listing (scratch w)) cand) = (ok, cs)"
    by (cases "candidate_ok e (mkdtemp e @ py ''/'' @ cand) (map_of (listing (scratch w)) cand)")
  let ?w1 = "w\<lparr>calls := calls w @ cs\<rparr>"
  let ?dest = "choose_dest (listing (final w)) cand"
  show ?thesis
  proof (cases ok)
    case False
    with c show ?thesis by (simp add: process_candidate_def Let_def final_try_unlink)
  next
    case True
    show ?thesis
    proof (cases "os_replace e ?w1 cand ?dest")
      case (Inl ex)
      with c True show ?thesis by (simp add: process_candidate_def Let_def)
    next
      case (Inr w2)
      then obtain f where w2: "final w2 = Some (AList.update ?dest f (listing (final w)))"
        by (auto simp: os_replace_def split: option.splits)
      have fresh: "\<not> path_exists (listing (final w)) ?dest" by (rule choose_dest_fresh)
      have p: "process_candidate e (acc, w) cand = (acc @ [?dest], try_chmod e w2 ?dest)"
        using c True Inr by (simp add: process_candidate_def Let_def)
      have "map_of (listing (final w)) \<subseteq>\<^sub>m map_of (listing (final (try_chmod e w2 ?dest)))"
        using fresh
        by (cases "chmod_raises e ?dest")
           (simp_all add: try_chmod_def w2 listing_def map_le_chmod_fresh map_le_update_fresh)
      with p show ?thesis by simp
    qed
  qed
qed

lemma final_process_candidates:
  "map_of (listing (final (snd st))) \<subseteq>\<^sub>m
   map_of (listing (final (snd (process_candidates e st cands))))"
proof (induction cands arbitrary: st)
  case Nil
  show ?case by (simp add: process_candidates_def)
next
  case (Cons c cands)
  obtain acc w where st: "st = (acc, w)" by (cases st)
  have "map_of (listing (final (snd st))) \<subseteq>\<^sub>m
      map_of (listing (final (snd (process_candidate e st c))))"
    by (simp add: st final_process_candidate)
  moreover have "map_of (listing (final (snd (process_candidate e st c)))) \<subseteq>\<^sub>m
      map_of (listing (final (snd (process_candidates e (process_candidate e st c) cands))))"
    by (rule Cons.IH)
  ultimately show ?case by (auto simp: process_candidates_def intro: map_le_trans)
qed

lemma final_with_body:
  "map_of (listing (final w)) \<subseteq>\<^sub>m map_of (listing (final (snd (with_body e url q w))))"
proof -
  obtain written raised where y: "youtube_dl e url (make_ydl_opts (mkdtemp e) q) = (written, raised)"
    by (cases "youtube_dl e url (make_ydl_opts (mkdtemp e) q)")
  let ?w1 = "w\<lparr>scratch := map_option (write_files written) (scratch w),
                 calls := calls w @ [Extract_info url (make_ydl_opts (mkdtemp e) q)]\<rparr>"
  show ?thesis
  proof (cases raised)
    case (Some ex)
    with y show ?thesis by (simp add: with_body_def Let_def)
  next
    case None
    have "map_of (listing (final (snd ([] :: pystr list, ?w1)))) \<subseteq>\<^sub>m
        map_of (listing (final (snd (process_candidates e ([], ?w1)
          (sort (glob_mp3 (listing (scratch ?w1))))))))"
      by (rule final_process_candidates)
    with y None show ?thesis by (simp add: with_body_def Let_def case_prod_beta)
  qed
qed

lemma final_download_and_validate:
  "map_of (listing d) \<subseteq>\<^sub>m
   map_of (listing (final (snd (download_and_validate e url d q))))"
proof (cases "if d = None then mkdir_raises e else None")
  case (Some ex)
  then show ?thesis by (simp add: download_and_validate_def)
next
  case None
  have "map_of (listing (final \<lparr>scratch = Some [], final = Some (listing d), msgs = [], calls = []\<rparr>))
      \<subseteq>\<^sub>m map_of (listing (final (snd (with_body e url q
          \<lparr>scratch = Some [], final = Some (listing d), msgs = [], calls = []\<rparr>))))"
    by (rule final_with_body)
  then show ?thesis
    by (simp add: download_and_validate_run(2) [OF None] final_cleanup listing_def)
qed

lemma scratch_download_and_validate:
  "scratch (snd (download_and_validate e url d q)) = None \<longleftrightarrow>
     (if d = None then mkdir_raises e else None) \<noteq> None \<or>
     fst (cleanup e (snd (with_body e url q
       \<lparr>scratch = Some [], final = Some (listing d), msgs = [], calls = []\<rparr>))) = None"
proof (cases "if d = None then mkdir_raises e else None")
  case (Some ex)
  then show ?thesis by (simp add: download_and_validate_def)
next
  case None
  then show ?thesis by (simp add: download_and_validate_run(2) [OF None] scratch_cleanup)
qed

lemma keys_write_files: "fst ` set (write_files fs d) = fst ` set fs \<union> fst ` set d"
  by (induction fs d rule: write_files.induct) (auto simp: AList.dom_update)

lemma keys_delete_listing:
  "fst ` set (listing (map_option (AList.delete c) x)) \<subseteq> fst ` set (listing x)"
  using dom_delete_subset [of c] by (cases x) (auto simp: listing_def)

lemma scratch_keys_process_candidate:
  "fst ` set (listing (scratch (snd (process_candidate e (acc, w) cand))))
     \<subseteq> fst ` set (listing (scratch w))"
proof -
  obtain ok cs where c: "candidate_ok e (mkdtemp e @ py ''/'' @ cand)
      (map_of (listing (scratch w)) cand) = (ok, cs)"
    by (cases "candidate_ok e (mkdtemp e @ py ''/'' @ cand) (map_of (listing (scratch w)) cand)")
  show ?thesis
  proof (cases ok)
    case False
    have "fst ` set (listing (scratch (try_unlink e
        (w\<lparr>calls := calls w @ cs,
           msgs := msgs w @
             [St_warning (py ''Discarding unrecognized or invalid file: '' @ cand)]\<rparr>) cand)))
        \<subseteq> fst ` set (listing (scratch w))"
      using keys_delete_listing [of cand "scratch w"]
      by (cases "unlink_raises e cand") (simp_all add: try_unlink_def)
    with c False show ?thesis by (simp add: process_candidate_def Let_def)
  next
    case True
    show ?thesis
    proof (cases "os_replace e (w\<lparr>calls := calls w @ cs\<rparr>) cand
        (choose_dest (listing (final w)) cand)")
      case (Inl ex)
      with c True show ?thesis by (simp add: process_candidate_def Let_def)
    next
      case (Inr w2)
      then have "scratch w2 = map_option (AList.delete cand) (scratch w)"
        by (auto simp: os_replace_def split: option.splits)
      then have "fst ` set (listing (scratch w2)) \<subseteq> fst ` set (listing (scratch w))"
        using keys_delete_listing [of cand "scratch w"] by simp
      with c True Inr show ?thesis
        by (simp add: process_candidate_def Let_def scratch_try_chmod)
    qed
  qed
qed

lemma scratch_keys_process_candidates:
  "fst ` set (listing (scratch (snd (process_candidates e st cands))))
     \<subseteq> fst ` set (listing (scratch (snd st)))"
proof (induction cands arbitrary: st)
  case Nil
  show ?case by (simp add: process_candidates_def)
next
  case (Cons c cands)
  obtain acc w where st: "st = (acc, w)" by (cases st)
  have "fst ` set (listing (scratch (snd (process_candidates e (process_candidate e st c) cands))))
      \<subseteq> fst ` set (listing (scratch (snd (process_candidate e st c))))"
    by (rule Cons.IH)
  also have "\<dots> \<subseteq> fst ` set (listing (scratch (snd st)))"
    by (simp add: st scratch_keys_process_candidate)
  finally show ?case by (simp add: process_candidates_def)
qed

lemma scratch_keys_with_body:
  "fst ` set (listing (scratch (snd (with_body e url q
      \<lparr>scratch = Some [], final = fin, msgs = [], calls = []\<rparr>))))
     \<subseteq> fst ` set (fst (youtube_dl e url (make_ydl_opts (mkdtemp e) q)))"
proof -
  obtain written raised where y: "youtube_dl e url (make_ydl_opts (mkdtemp e) q) = (written, raised)"
    by (cases "youtube_dl e url (make_ydl_opts (mkdtemp e) q)")
  let ?w1 = "\<lparr>scratch = Some (write_files written []), final = fin, msgs = [],
      calls = [Extract_info url (make_ydl_opts (mkdtemp e) q)]\<rparr>"
  have k: "fst ` set (listing (scratch ?w1)) = fst ` set written"
    by (simp add: listing_def keys_write_files)
  show ?thesis
  proof (cases raised)
    case (Some ex)
    with y k show ?thesis by (simp add: with_body_def Let_def)
  next
    case None
    have "fst ` set (listing (scratch (snd (process_candidates e ([], ?w1)
        (sort (glob_mp3 (listing (scratch ?w1))))))))
        \<subseteq> fst ` set (listing (scratch (snd ([] :: pystr list, ?w1))))"
      by (rule scratch_keys_process_candidates)
    with y None k show ?thesis by (simp add: with_body_def Let_def case_prod_beta)
  qed
qed

lemma cleanup_ok_on:
  assumes "\<forall>n \<in> fst ` set (listing (scratch w)). rmtree_raises e n = None"
    and "rmdir_raises e = None"
  shows "fst (cleanup e w) = None"
proof (cases "scratch w")
  case None
  then show ?thesis by (simp add: cleanup_def)
next
  case (Some d)
  with assms(1) have "rmtree (rmtree_raises e) d = ([], None)"
    by (intro rmtree_ok) (simp add: listing_def)
  with Some assms(2) show ?thesis by (simp add: cleanup_def)
qed

text \<open>
  C4, as amended. After a run of \<open>download_and_validate\<close> the temporary directory does not
  exist exactly when creating the output directory raised (no temporary directory was made)
  or the removal at the exit of the \<open>with\<close> block did not raise. The removal does not raise
  when every file the download wrote can be deleted and the directory can be removed; then
  the directory is gone whether the run returned its list, rejected candidates or raised from
  the download. When the removal raises, the run raises that exception and the directory is
  still there.
\<close>

theorem scratch_gone_after_run:
  "(scratch (snd (download_and_validate e url d q)) = None \<longleftrightarrow>
      (if d = None then mkdir_raises e else None) \<noteq> None \<or>
      fst (cleanup e (snd (with_body e url q
        \<lparr>scratch = Some [], final = Some (listing d), msgs = [], calls = []\<rparr>))) = None) \<and>
   ((\<forall>n \<in> fst ` set (fst (youtube_dl e url (make_ydl_opts (mkdtemp e) q))).
        rmtree_raises e n = None) \<and> rmdir_raises e = None
      \<longrightarrow> scratch (snd (download_and_validate e url d q)) = None) \<and>
   ((if d = None then mkdir_raises e else None) = None \<and>
    fst (cleanup e (snd (with_body e url q
      \<lparr>scratch = Some [], final = Some (listing d), msgs = [], calls = []\<rparr>))) = Some ex
      \<longrightarrow> fst (download_and_validate e url d q) = Inl ex \<and>
          scratch (snd (download_and_validate e url d q)) \<noteq> None)"
proof (intro conjI impI)
  show "scratch (snd (download_and_validate e url d q)) = None \<longleftrightarrow>
      (if d = None then mkdir_raises e else None) \<noteq> None \<or>
      fst (cleanup e (snd (with_body e url q
        \<lparr>scratch = Some [], final = Some (listing d), msgs = [], calls = []\<rparr>))) = None"
    by (rule scratch_download_and_validate)
next
  assume a: "(\<forall>n \<in> fst ` set (fst (youtube_dl e url (make_ydl_opts (mkdtemp e) q))).
        rmtree_raises e n = None) \<and> rmdir_raises e = None"
  let ?w = "snd (with_body e url q
      \<lparr>scratch = Some [], final = Some (listing d), msgs = [], calls = []\<rparr>)"
  have "\<forall>n \<in> fst ` set (listing (scratch ?w)). rmtree_raises e n = None"
  proof
    fix n assume "n \<in> fst ` set (listing (scratch ?w))"
    then have m: "n \<in> fst ` set (fst (youtube_dl e url (make_ydl_opts (mkdtemp e) q)))"
      using scratch_keys_with_body [of e url q "Some (listing d)"] by (rule rev_subsetD)
    from a have "\<forall>n \<in> fst ` set (fst (youtube_dl e url (make_ydl_opts (mkdtemp e) q))).
        rmtree_raises e n = None" by (rule conjunct1)
    then show "rmtree_raises e n = None" using m by (rule bspec)
  qed
  moreover have "rmdir_raises e = None" using a by (rule conjunct2)
  ultimately have "fst (cleanup e ?w) = None" by (rule cleanup_ok_on)
  then show "scratch (snd (download_and_validate e url d q)) = None"
    by (simp add: scratch_download_and_validate)
next
  assume a: "(if d = None then mkdir_raises e else None) = None \<and>
    fst (cleanup e (snd (with_body e url q
      \<lparr>scratch = Some [], final = Some (listing d), msgs = [], calls = []\<rparr>))) = Some ex"
  then show "fst (download_and_validate e url d q) = Inl ex"
    by (simp add: download_and_validate_run(1))
  from a show "scratch (snd (download_and_validate e url d q)) \<noteq> None"
    by (simp add: scratch_download_and_validate)
qed

theorem scratch_gone_after_run_witness:
  "fst (download_and_validate failing_env (py ''https://example.org/v'') (Some []) (py ''192''))
     = Inl (Exn (py ''DownloadError'')) \<and>
   scratch (snd (with_body failing_env (py ''https://example.org/v'') (py ''192'')
     \<lparr>scratch = Some [], final = Some [], msgs = [], calls = []\<rparr>))
     = Some [(py ''Song.webm.part'', \<lparr>data = [26, 69], mode = 420\<rparr>)] \<and>
   scratch (snd (download_and_validate failing_env (py ''https://example.org/v'') (Some [])
     (py ''192''))) = None \<and>
   fst (download_and_validate raising_env (py ''https://example.org/v'') (Some []) (py ''192''))
     = Inr [] \<and>
   scratch (snd (download_and_validate raising_env (py ''https://example.org/v'') (Some [])
     (py ''192''))) = None \<and>
   fst (download_and_validate
          (example_env [(py ''Song.mp3'', \<lparr>data = [73, 68, 51], mode = 420\<rparr>)])
          (py ''https://example.org/v'') None (py ''192'')) = Inr [py ''Song.mp3''] \<and>
   scratch (snd (download_and_validate
          (example_env [(py ''Song.mp3'', \<lparr>data = [73, 68, 51], mode = 420\<rparr>)])
          (py ''https://example.org/v'') None (py ''192''))) = None"
proof -
  let ?u = "py ''https://example.org/v''"
  let ?q = "py ''192''"
  let ?w0 = "\<lparr>scratch = Some [], final = Some [], msgs = [], calls = []\<rparr>"
  let ?ok = "example_env [(py ''Song.mp3'', \<lparr>data = [73, 68, 51], mode = 420\<rparr>)]"
  have a: "fst (download_and_validate failing_env ?u (Some []) ?q) = Inl (Exn (py ''DownloadError''))"
    by (simp add: failing_env_def run_defs string_defs)
  have b: "scratch (snd (with_body failing_env ?u ?q ?w0))
      = Some [(py ''Song.webm.part'', \<lparr>data = [26, 69], mode = 420\<rparr>)]"
    by (simp add: failing_env_def run_defs string_defs)
  have h1: "(\<forall>n \<in> fst ` set (fst (youtube_dl failing_env ?u (make_ydl_opts (mkdtemp failing_env) ?q))).
      rmtree_raises failing_env n = None) \<and> rmdir_raises failing_env = None"
    by (simp add: failing_env_def example_env_def)
  have c: "scratch (snd (download_and_validate failing_env ?u (Some []) ?q)) = None"
    using scratch_gone_after_run [of failing_env ?u "Some []" ?q] h1 by blast
  have d: "fst (download_and_validate raising_env ?u (Some []) ?q) = Inr []"
    by (simp add: raising_env_def run_defs string_defs)
  have h2: "(\<forall>n \<in> fst ` set (fst (youtube_dl raising_env ?u (make_ydl_opts (mkdtemp raising_env) ?q))).
      rmtree_raises raising_env n = None) \<and> rmdir_raises raising_env = None"
    by (simp add: raising_env_def example_env_def)
  have e: "scratch (snd (download_and_validate raising_env ?u (Some []) ?q)) = None"
    using scratch_gone_after_run [of raising_env ?u "Some []" ?q] h2 by blast
  have f: "fst (download_and_validate ?ok ?u None ?q) = Inr [py ''Song.mp3'']"
    by (simp add: run_defs string_defs)
  have h3: "(\<forall>n \<in> fst ` set (fst (youtube_dl ?ok ?u (make_ydl_opts (mkdtemp ?ok) ?q))).
      rmtree_raises ?ok n = None) \<and> rmdir_raises ?ok = None"
    by (simp add: example_env_def)
  have g: "scratch (snd (download_and_validate ?ok ?u None ?q)) = None"
    using scratch_gone_after_run [of ?ok ?u None ?q] h3 by blast
  from a b c d e f g show ?thesis by blast
qed

text \<open>
  C4 as stated fails: the one candidate is rejected and is busy, \<open>unlink\<close> cannot delete it and
  neither can the removal at the exit; the run raises that error and the temporary directory
  is still there, with the file in it.
\<close>

theorem scratch_left_when_removal_fails:
  "fst (download_and_validate busy_env (py ''https://example.org/v'') (Some []) (py ''192''))
     = Inl (Exn (py ''[Errno 16] Device or resource busy'')) \<and>
   scratch (snd (download_and_validate busy_env (py ''https://example.org/v'') (Some [])
     (py ''192'')))
     = Some [(py ''Song.mp3'', \<lparr>data = [73, 68, 51], mode = 420\<rparr>)]"
  by (simp add: busy_env_def raising_env_def run_defs string_defs)

text \<open>
  C5. Every file of the output directory before a run is there after it with the same bytes
  and permission bits, and the same holds from any point of the loop over the candidates on,
  so a file the run has placed is not touched by the candidates after it.
\<close>

theorem destination_only_grows:
  "map_of (listing d) \<subseteq>\<^sub>m
     map_of (listing (final (snd (download_and_validate e url d q)))) \<and>
   map_of (listing (final w)) \<subseteq>\<^sub>m
     map_of (listing (final (snd (process_candidates e (acc, w) cands))))"
  using final_download_and_validate [of d e url q] final_process_candidates [of "(acc, w)" e cands]
  by simp

theorem destination_only_grows_witness:
  "final (snd (download_and_validate
      (example_env [(py ''Song.mp3'', \<lparr>data = [73, 68, 51], mode = 420\<rparr>)])
      (py ''https://example.org/v'')
      (Some [(py ''Song.mp3'', \<lparr>data = [0], mode = 420\<rparr>)]) (py ''192'')))
     = Some [(py ''Song.mp3'', \<lparr>data = [0], mode = 420\<rparr>),
             (py ''Song (1).mp3'', \<lparr>data = [73, 68, 51], mode = 384\<rparr>)] \<and>
   map_of [(py ''Song.mp3'', \<lparr>data = [0], mode = 420\<rparr>)] \<subseteq>\<^sub>m
   map_of [(py ''Song.mp3'', \<lparr>data = [0], mode = 420\<rparr>),
           (py ''Song (1).mp3'', \<lparr>data = [73, 68, 51], mode = 384\<rparr>)]"
proof -
  let ?e = "example_env [(py ''Song.mp3'', \<lparr>data = [73, 68, 51], mode = 420\<rparr>)]"
  let ?d = "[(py ''Song.mp3'', \<lparr>data = [0], mode = 420\<rparr>)]"
  have a: "final (snd (download_and_validate ?e (py ''https://example.org/v'') (Some ?d)
      (py ''192'')))
     = Some [(py ''Song.mp3'', \<lparr>data = [0], mode = 420\<rparr>),
             (py ''Song (1).mp3'', \<lparr>data = [73, 68, 51], mode = 384\<rparr>)]"
    by (simp add: run_defs string_defs)
  have "map_of (listing (Some ?d)) \<subseteq>\<^sub>m
      map_of (listing (final (snd (download_and_validate ?e (py ''https://example.org/v'')
        (Some ?d) (py ''192'')))))"
    using destination_only_grows [of "Some ?d" ?e "py ''https://example.org/v''" "py ''192''"]
    by blast
  then have "map_of ?d \<subseteq>\<^sub>m
      map_of [(py ''Song.mp3'', \<lparr>data = [0], mode = 420\<rparr>),
              (py ''Song (1).mp3'', \<lparr>data = [73, 68, 51], mode = 384\<rparr>)]"
    unfolding a by (simp only: listing_def option.case)
  with a show ?thesis by blast
qed

section \<open>Properties of the front ends\<close>

lemma extract_opts_append: "extract_opts (xs @ ys) = extract_opts xs @ extract_opts ys"
  by (induction xs rule: extract_opts.induct) auto

lemma extract_opts_candidate_ok: "extract_opts (snd (candidate_ok e p f)) = []"
  by (simp add: candidate_ok_calls ffprobe_calls extract_opts_append)

lemma extract_opts_process_candidates:
  "extract_opts (calls (snd (process_candidates e st cands))) = extract_opts (calls (snd st))"
proof (induction cands arbitrary: st)
  case Nil
  show ?case by (simp add: process_candidates_def)
next
  case (Cons c cands)
  obtain acc w where st: "st = (acc, w)" by (cases st)
  have "extract_opts (calls (snd (process_candidates e (process_candidate e st c) cands)))
      = extract_opts (calls (snd (process_candidate e st c)))"
    by (rule Cons.IH)
  also have "\<dots> = extract_opts (calls (snd st))"
    by (simp add: st calls_process_candidate extract_opts_append extract_opts_candidate_ok)
  finally show ?case by (simp add: process_candidates_def)
qed

lemma extract_opts_with_body:
  "extract_opts (calls (snd (with_body e url q w)))
     = extract_opts (calls w) @ [make_ydl_opts (mkdtemp e) q]"
proof -
  obtain written raised where y: "youtube_dl e url (make_ydl_opts (mkdtemp e) q) = (written, raised)"
    by (cases "youtube_dl e url (make_ydl_opts (mkdtemp e) q)")
  let ?w1 = "w\<lparr>scratch := map_option (write_files written) (scratch w),
                 calls := calls w @ [Extract_info url (make_ydl_opts (mkdtemp e) q)]\<rparr>"
  show ?thesis
  proof (cases raised)
    case (Some ex)
    with y show ?thesis by (simp add: with_body_def Let_def extract_opts_append)
  next
    case None
    have "extract_opts (calls (snd (process_candidates e ([], ?w1)
        (sort (glob_mp3 (listing (scratch ?w1)))))))
        = extract_opts (calls (snd ([] :: pystr list, ?w1)))"
      by (rule extract_opts_process_candidates)
    with y None show ?thesis
      by (simp add: with_body_def Let_def case_prod_beta extract_opts_append)
  qed
qed

lemma extract_opts_download_and_validate:
  "extract_opts (calls (snd (download_and_validate e url (Some d) q)))
     = [make_ydl_opts (mkdtemp e) q]"
  by (simp add: download_and_validate_run(2) calls_cleanup extract_opts_with_body)

lemma streamlit_main_quality:
  "snd (streamlit_main e home dirs inp) = Some w \<Longrightarrow>
   map (map preferredquality \<circ> postprocessors) (extract_opts (calls w))
     = [[str_nat (kbps (bitrate_choice inp))]]"
  by (auto simp: streamlit_main_def Let_def case_prod_beta extract_opts_download_and_validate
      make_ydl_opts_def split: if_splits option.splits sum.splits)

lemma cli_main_downloads:
  "makedirs_raises e (args_output args) = None \<Longrightarrow>
   download_opts (fst (cli_main e args)) = [cli_ydl_opts (args_output args) (args_quality args)]"
  by (auto simp: cli_main_def download_mp3_def Let_def split: option.splits)

text \<open>
  C8. The claim does not hold of the code: \<open>main\<close> does nothing with \<open>args.noplaylist\<close>, and
  \<open>download_mp3\<close> always sets \<open>"noplaylist": False\<close>. A run with the flag is the same as a run
  without it, and the download is asked to expand playlists.
\<close>

theorem no_playlist_flag_has_no_effect:
  "cli_main e (args\<lparr>args_noplaylist := True\<rparr>) = cli_main e (args\<lparr>args_noplaylist := False\<rparr>) \<and>
   opt_noplaylist (cli_ydl_opts out_dir quality) = False \<and>
   map opt_noplaylist
     (download_opts (fst (cli_main quiet_cli
        \<lparr>args_url = py ''https://www.youtube.com/watch?v=a&list=b'',
         args_output = py ''/home/u/Downloads'', args_quality = py ''192'',
         args_noplaylist = True\<rparr>))) = [False]"
  by (simp add: cli_main_def download_mp3_def cli_ydl_opts_def quiet_cli_def Let_def)

text \<open>
  C9, as amended. The bitrate of the web front end is one of the four values of its selector,
  and the request it hands to the pipeline carries that value. The command line tool does not
  check the bitrate: whatever \<open>--quality\<close> holds goes unchanged into the options of the
  download, which runs whenever creating the output directory does not raise.
\<close>

theorem bitrate_not_validated:
  "kbps b \<in> set bitrate_options \<and>
   (snd (streamlit_main e home dirs inp) = Some w \<longrightarrow>
      map (map preferredquality \<circ> postprocessors) (extract_opts (calls w))
        = [[str_nat (kbps (bitrate_choice inp))]]) \<and>
   (makedirs_raises ce (args_output args) = None \<longrightarrow>
      download_opts (fst (cli_main ce args))
        = [cli_ydl_opts (args_output args) (args_quality args)]) \<and>
   map preferredquality (postprocessors (cli_ydl_opts out_dir q)) = [q]"
proof (intro conjI impI)
  show "kbps b \<in> set bitrate_options" by (cases b) (simp_all add: bitrate_options_def)
next
  assume "snd (streamlit_main e home dirs inp) = Some w"
  then show "map (map preferredquality \<circ> postprocessors) (extract_opts (calls w))
        = [[str_nat (kbps (bitrate_choice inp))]]"
    by (rule streamlit_main_quality)
next
  assume "makedirs_raises ce (args_output args) = None"
  then show "download_opts (fst (cli_main ce args))
        = [cli_ydl_opts (args_output args) (args_quality args)]"
    by (rule cli_main_downloads)
next
  show "map preferredquality (postprocessors (cli_ydl_opts out_dir q)) = [q]"
    by (simp add: cli_ydl_opts_def)
qed

theorem bitrate_not_validated_witness:
  "download_opts (fst (cli_main quiet_cli
     \<lparr>args_url = py ''https://example.org/v'', args_output = py ''/home/u/Downloads'',
      args_quality = py ''999'', args_noplaylist = False\<rparr>))
     = [cli_ydl_opts (py ''/home/u/Downloads'') (py ''999'')] \<and>
   snd (streamlit_main (example_env []) (py ''/home/u'') (\<lambda>p. Some [])
     \<lparr>url_field = py ''https://example.org/v'', save_choice = System_Downloads,
      custom_folder = [], bitrate_choice = B320, download_clicked = True\<rparr>) \<noteq> None \<and>
   map (map preferredquality \<circ> postprocessors)
     (extract_opts (calls (the (snd (streamlit_main (example_env []) (py ''/home/u'')
        (\<lambda>p. Some [])
        \<lparr>url_field = py ''https://example.org/v'', save_choice = System_Downloads,
         custom_folder = [], bitrate_choice = B320, download_clicked = True\<rparr>)))))
     = [[py ''320'']]"
proof -
  let ?args = "\<lparr>args_url = py ''https://example.org/v'', args_output = py ''/home/u/Downloads'',
      args_quality = py ''999'', args_noplaylist = False\<rparr>"
  let ?inp = "\<lparr>url_field = py ''https://example.org/v'', save_choice = System_Downloads,
      custom_folder = [], bitrate_choice = B320, download_clicked = True\<rparr>"
  let ?r = "streamlit_main (example_env []) (py ''/home/u'') (\<lambda>p. Some []) ?inp"
  have h: "makedirs_raises quiet_cli (args_output ?args) = None" by (simp add: quiet_cli_def)
  have a: "download_opts (fst (cli_main quiet_cli ?args))
      = [cli_ydl_opts (py ''/home/u/Downloads'') (py ''999'')]"
    using bitrate_not_validated [of B320 "example_env []" "py ''/home/u''" "\<lambda>p. Some []" ?inp
        _ quiet_cli ?args] h
    by simp
  have ne: "snd ?r \<noteq> None"
    by (simp add: streamlit_main_def run_defs string_defs)
  then obtain w where w: "snd ?r = Some w" by blast
  have "map (map preferredquality \<circ> postprocessors) (extract_opts (calls w))
      = [[str_nat (kbps (bitrate_choice ?inp))]]"
    using bitrate_not_validated [of B320 "example_env []" "py ''/home/u''" "\<lambda>p. Some []" ?inp
        w quiet_cli ?args] w
    by blast
  then have b: "map (map preferredquality \<circ> postprocessors) (extract_opts (calls (the (snd ?r))))
      = [[py ''320'']]"
    using w by (simp add: str_nat.simps py_def)
  from a ne b show ?thesis by blast
qed

text \<open>
  C9 as stated fails: with \<open>--quality 999\<close> the command line tool creates the output directory,
  calls the download with \<open>preferredquality\<close> 999 and ends with \<open>Done.\<close>
\<close>

theorem cli_forwards_any_bitrate:
  "py ''999'' \<notin> set (map str_nat bitrate_options) \<and>
   cli_main quiet_cli
     \<lparr>args_url = py ''https://example.org/v'', args_output = py ''/home/u/Downloads'',
      args_quality = py ''999'', args_noplaylist = False\<rparr>
   = ([Print (py ''Downloading: https://example.org/v'' @ [10] @
             py ''Output directory: /home/u/Downloads''),
       Makedirs (py ''/home/u/Downloads''),
       Download [py ''https://example.org/v'']
         (cli_ydl_opts (py ''/home/u/Downloads'') (py ''999'')),
       Print (py ''Done.'')], Returned) \<and>
   map preferredquality
     (postprocessors (cli_ydl_opts (py ''/home/u/Downloads'') (py ''999''))) = [py ''999'']"
  by (simp add: cli_main_def download_mp3_def cli_ydl_opts_def quiet_cli_def Let_def
      bitrate_options_def str_nat.simps py_def)

end
